theory Spec2Isabelle
  imports Main "HOL-Library.Sublist"
begin

section \<open>The executor of rcon-cli: sessions, dispatch and the interactive loop\<close>

text \<open>
  A shallow embedding of \<^verbatim>\<open>internal/executor/executor.go\<close>. The executor talks to
  packages whose sources are not part of the development (the three protocol clients,
  the logger and the configuration loader) and to two streams. They appear here as
  follows.
  \<^item> A collaborator is a function from its arguments and a hidden world \<open>'w\<close> (network,
    file system, clock) to its results and the next world; the executor is verified for
    every such function. Each call is also appended to a ghost list \<open>calls\<close>, so that
    "which client was called, with what" can be stated.
  \<^item> The writer \<open>w\<close> is the list of the strings written to it, in order. The executor
    drops the error of every write, and so does the model.
  \<^item> The reader \<open>r\<close> is the list of the lines still to be read (see \<open>Fscanln\<close>).
  \<^item> Go's \<^verbatim>\<open>error\<close> is \<open>error option\<close>, \<open>None\<close> for \<^verbatim>\<open>nil\<close>.
\<close>

subsection \<open>Constants\<close>

text \<open>\<^verbatim>\<open>const CommandQuit = ":q"\<close> and \<^verbatim>\<open>const AttemptsLimit = 3\<close>.\<close>

definition CommandQuit :: string where
  "CommandQuit = '':q''"

definition AttemptsLimit :: nat where
  "AttemptsLimit = 3"

text \<open>
  The constants of package \<^verbatim>\<open>config\<close> that the executor reads. Their declarations are
  outside the sources at hand, so every function takes them as the parameter \<open>K\<close>.
\<close>

record config_consts =
  ProtocolRCON :: string
  ProtocolWebRCON :: string
  ProtocolTELNET :: string
  DefaultConfigEnv :: string

text \<open>
  Go refuses an expression switch with two equal constant cases. The switch of
  \<^verbatim>\<open>Interactive\<close> lists \<^verbatim>\<open>ProtocolTELNET\<close>, \<^verbatim>\<open>""\<close>, \<^verbatim>\<open>ProtocolRCON\<close> and
  \<^verbatim>\<open>ProtocolWebRCON\<close>, so in every program that compiles the three names are non-empty
  and pairwise different.
\<close>

definition distinct_protocols :: "config_consts \<Rightarrow> bool" where
  "distinct_protocols K =
     distinct [[], ProtocolRCON K, ProtocolWebRCON K, ProtocolTELNET K]"

subsection \<open>Errors\<close>

text \<open>
  The four sentinel errors of the package, an error returned by a collaborator (which
  cannot be one of the sentinels: the collaborators do not import the executor), and
  \<^verbatim>\<open>fmt.Errorf("write log error: %w", err)\<close>.
\<close>

type_synonym ext_error = string

datatype error =
    ErrEmptyAddress
  | ErrEmptyPassword
  | ErrCommandEmpty
  | ErrToManyFails
  | External ext_error
  | WriteLogError error

subsection \<open>Sessions, collaborators and the state of the streams\<close>

text \<open>\<^verbatim>\<open>config.Session\<close>, with the four fields the executor uses.\<close>

record Session =
  Address :: string
  Password :: string
  Type :: string
  Log :: string

datatype call =
    RconExecute string string string
  | RconCheckCredentials string string
  | TelnetExecute string string string
  | TelnetInteractive string string
  | WebsocketExecute string string string
  | WebsocketCheckCredentials string string
  | LoggerWrite string string string string
  | ConfigNewConfig string

record 'w collaborators =
  rcon_Execute :: "string \<Rightarrow> string \<Rightarrow> string \<Rightarrow> 'w \<Rightarrow> (string \<times> ext_error option) \<times> 'w"
  rcon_CheckCredentials :: "string \<Rightarrow> string \<Rightarrow> 'w \<Rightarrow> ext_error option \<times> 'w"
  telnet_Execute :: "string \<Rightarrow> string \<Rightarrow> string \<Rightarrow> 'w \<Rightarrow> (string \<times> ext_error option) \<times> 'w"
  telnet_Interactive ::
    "string list \<Rightarrow> string \<Rightarrow> string \<Rightarrow> 'w \<Rightarrow> (ext_error option \<times> string list) \<times> 'w"
  websocket_Execute :: "string \<Rightarrow> string \<Rightarrow> string \<Rightarrow> 'w \<Rightarrow> (string \<times> ext_error option) \<times> 'w"
  websocket_CheckCredentials :: "string \<Rightarrow> string \<Rightarrow> 'w \<Rightarrow> ext_error option \<times> 'w"
  logger_Write :: "string \<Rightarrow> string \<Rightarrow> string \<Rightarrow> string \<Rightarrow> 'w \<Rightarrow> ext_error option \<times> 'w"
  config_NewConfig :: "string \<Rightarrow> 'w \<Rightarrow> (ext_error + (string \<rightharpoonup> Session)) \<times> 'w"

record 'w io =
  world :: 'w
  written :: "string list"
  calls :: "call list"

text \<open>One call of a collaborator: it runs on the world and is recorded.\<close>

definition invoke :: "call \<Rightarrow> ('w \<Rightarrow> 'a \<times> 'w) \<Rightarrow> 'w io \<Rightarrow> 'a \<times> 'w io" where
  "invoke c f st =
     (case f (world st) of (a, w') \<Rightarrow> (a, st\<lparr>world := w', calls := calls st @ [c]\<rparr>))"

text \<open>\<^verbatim>\<open>fmt.Fprint(w, s)\<close> and \<^verbatim>\<open>fmt.Fprintln(w, s)\<close>, the latter adding a line feed.\<close>

definition Fprint :: "string \<Rightarrow> 'w io \<Rightarrow> 'w io" where
  "Fprint s st = st\<lparr>written := written st @ [s]\<rparr>"

definition Fprintln :: "string \<Rightarrow> 'w io \<Rightarrow> 'w io" where
  "Fprintln s st = st\<lparr>written := written st @ [s @ [CHR 0x0A]]\<rparr>"

subsection \<open>\<^verbatim>\<open>strings.TrimSpace\<close>\<close>

text \<open>
  A Go string is a sequence of bytes. \<^verbatim>\<open>strings.TrimSpace\<close> removes from both ends
  every rune with Unicode's White Space property: the six ASCII ones, and (in UTF-8)
  U+0085, U+00A0, U+1680, U+2000 to U+200A, U+2028, U+2029, U+202F, U+205F and U+3000.
  A byte that starts no valid encoding decodes to U+FFFD, which is not a space, so
  trimming stops there.
\<close>

definition asciiSpace :: "char list" where
  "asciiSpace = [CHR 0x09, CHR 0x0A, CHR 0x0B, CHR 0x0C, CHR 0x0D, CHR 0x20]"

definition space_runes :: "string list" where
  "space_runes = map (\<lambda>c. [c]) asciiSpace @
     [[CHR 0xC2, CHR 0x85], [CHR 0xC2, CHR 0xA0], [CHR 0xE1, CHR 0x9A, CHR 0x80],
      [CHR 0xE2, CHR 0x80, CHR 0x80], [CHR 0xE2, CHR 0x80, CHR 0x81],
      [CHR 0xE2, CHR 0x80, CHR 0x82], [CHR 0xE2, CHR 0x80, CHR 0x83],
      [CHR 0xE2, CHR 0x80, CHR 0x84], [CHR 0xE2, CHR 0x80, CHR 0x85],
      [CHR 0xE2, CHR 0x80, CHR 0x86], [CHR 0xE2, CHR 0x80, CHR 0x87],
      [CHR 0xE2, CHR 0x80, CHR 0x88], [CHR 0xE2, CHR 0x80, CHR 0x89],
      [CHR 0xE2, CHR 0x80, CHR 0x8A], [CHR 0xE2, CHR 0x80, CHR 0xA8],
      [CHR 0xE2, CHR 0x80, CHR 0xA9], [CHR 0xE2, CHR 0x80, CHR 0xAF],
      [CHR 0xE2, CHR 0x81, CHR 0x9F], [CHR 0xE3, CHR 0x80, CHR 0x80]]"

text \<open>The width in bytes of the space rune a string starts (ends) with, 0 if none.\<close>

definition leadingSpace :: "string \<Rightarrow> nat" where
  "leadingSpace s =
     (case find (\<lambda>e. take (length e) s = e) space_runes of
        None \<Rightarrow> 0 | Some e \<Rightarrow> length e)"

definition trailingSpace :: "string \<Rightarrow> nat" where
  "trailingSpace s =
     (case find (\<lambda>e. length e \<le> length s \<and> drop (length s - length e) s = e) space_runes of
        None \<Rightarrow> 0 | Some e \<Rightarrow> length e)"

function TrimLeft :: "string \<Rightarrow> string" where
  "TrimLeft s = (if leadingSpace s = 0 then s else TrimLeft (drop (leadingSpace s) s))"
  by pat_completeness auto
termination
proof (relation "measure length")
  show "wf (measure length)" by simp
next
  fix s :: string
  assume "leadingSpace s \<noteq> 0"
  then have "s \<noteq> []"
    by (auto simp: leadingSpace_def space_runes_def asciiSpace_def)
  with \<open>leadingSpace s \<noteq> 0\<close> show "(drop (leadingSpace s) s, s) \<in> measure length"
    by simp
qed

function TrimRight :: "string \<Rightarrow> string" where
  "TrimRight s =
     (if trailingSpace s = 0 then s else TrimRight (take (length s - trailingSpace s) s))"
  by pat_completeness auto
termination
proof (relation "measure length")
  show "wf (measure length)" by simp
next
  fix s :: string
  assume "trailingSpace s \<noteq> 0"
  then have "s \<noteq> []"
    by (auto simp: trailingSpace_def space_runes_def asciiSpace_def)
  with \<open>trailingSpace s \<noteq> 0\<close> show "(take (length s - trailingSpace s) s, s) \<in> measure length"
    by simp
qed

declare TrimLeft.simps [simp del] TrimRight.simps [simp del]

definition TrimSpace :: "string \<Rightarrow> string" where
  "TrimSpace s = TrimRight (TrimLeft s)"

subsection \<open>\<^verbatim>\<open>Execute\<close>\<close>

text \<open>
  The switch of \<^verbatim>\<open>Execute\<close> on \<^verbatim>\<open>ses.Type\<close>, which takes the first case that matches
  and the binary client by default.
\<close>

definition dispatch ::
  "config_consts \<Rightarrow> 'w collaborators \<Rightarrow> Session \<Rightarrow> string \<Rightarrow> 'w io
     \<Rightarrow> (string \<times> ext_error option) \<times> 'w io"
where
  "dispatch K env ses command st =
     (if Type ses = ProtocolTELNET K then
        invoke (TelnetExecute (Address ses) (Password ses) command)
          (telnet_Execute env (Address ses) (Password ses) command) st
      else if Type ses = ProtocolWebRCON K then
        invoke (WebsocketExecute (Address ses) (Password ses) command)
          (websocket_Execute env (Address ses) (Password ses) command) st
      else
        invoke (RconExecute (Address ses) (Password ses) command)
          (rcon_Execute env (Address ses) (Password ses) command) st)"

text \<open>
  \<^verbatim>\<open>func Execute(w io.Writer, ses *config.Session, command string) error\<close>. The result
  is trimmed and printed when it is not empty, before the error of the client is looked
  at; the log is written only after that error was found to be nil.
\<close>

definition Execute ::
  "config_consts \<Rightarrow> 'w collaborators \<Rightarrow> Session \<Rightarrow> string \<Rightarrow> 'w io \<Rightarrow> error option \<times> 'w io"
where
  "Execute K env ses command st =
     (if command = [] then (Some ErrCommandEmpty, st)
      else
        case dispatch K env ses command st of
          ((result, err), st1) \<Rightarrow>
            (case
               (if result \<noteq> [] then (TrimSpace result, Fprintln (TrimSpace result) st1)
                else (result, st1))
             of (result', st2) \<Rightarrow>
               (case err of
                  Some e \<Rightarrow> (Some (External e), st2)
                | None \<Rightarrow>
                    (case invoke (LoggerWrite (Log ses) (Address ses) command result')
                            (logger_Write env (Log ses) (Address ses) command result') st2
                     of (Some e, st3) \<Rightarrow> (Some (WriteLogError (External e)), st3)
                      | (None, st3) \<Rightarrow> (None, st3)))))"

subsection \<open>\<^verbatim>\<open>NewSession\<close>\<close>

text \<open>
  \<^verbatim>\<open>func (executor *Executor) NewSession(c *cli.Context) (*config.Session, error)\<close>.
  The context is the function \<^verbatim>\<open>c.String\<close> from a flag's name to its value, the empty
  string for a flag that was not given. \<^verbatim>\<open>config.NewConfig\<close> returns an error or a
  \<^verbatim>\<open>map[string]Session\<close>; indexing the map at a missing key gives Go's zero session.
\<close>

definition zero_Session :: Session where
  "zero_Session = \<lparr>Address = [], Password = [], Type = [], Log = []\<rparr>"

definition index_Config :: "(string \<rightharpoonup> Session) \<Rightarrow> string \<Rightarrow> Session" where
  "index_Config cfg e = (case cfg e of None \<Rightarrow> zero_Session | Some s \<Rightarrow> s)"

definition NewSession ::
  "config_consts \<Rightarrow> 'w collaborators \<Rightarrow> (string \<Rightarrow> string) \<Rightarrow> 'w io
     \<Rightarrow> (Session \<times> error option) \<times> 'w io"
where
  "NewSession K env c st =
     (let ses = \<lparr>Address = c ''a'', Password = c ''p'', Type = c ''t'', Log = c ''l''\<rparr> in
      if Address ses \<noteq> [] \<and> Password ses \<noteq> [] then ((ses, None), st)
      else
        case invoke (ConfigNewConfig (c ''cfg'')) (config_NewConfig env (c ''cfg'')) st of
          (Inl err, st1) \<Rightarrow> ((ses, Some (External err)), st1)
        | (Inr cfg, st1) \<Rightarrow>
            (let e = (if c ''e'' = [] then DefaultConfigEnv K else c ''e'');
                 ses1 = (if Address ses = [] then ses\<lparr>Address := Address (index_Config cfg e)\<rparr>
                         else ses);
                 ses2 = (if Password ses1 = [] then ses1\<lparr>Password := Password (index_Config cfg e)\<rparr>
                         else ses1);
                 ses3 = (if Log ses2 = [] then ses2\<lparr>Log := Log (index_Config cfg e)\<rparr>
                         else ses2);
                 ses4 = (if Type ses3 = [] then ses3\<lparr>Type := Type (index_Config cfg e)\<rparr>
                         else ses3)
             in ((ses4, None), st1)))"

subsection \<open>\<^verbatim>\<open>CheckCredentials\<close>\<close>

definition CheckCredentials ::
  "config_consts \<Rightarrow> 'w collaborators \<Rightarrow> Session \<Rightarrow> 'w io \<Rightarrow> error option \<times> 'w io"
where
  "CheckCredentials K env ses st =
     (case
        (if Type ses = ProtocolWebRCON K then
           invoke (WebsocketCheckCredentials (Address ses) (Password ses))
             (websocket_CheckCredentials env (Address ses) (Password ses)) st
         else
           invoke (RconCheckCredentials (Address ses) (Password ses))
             (rcon_CheckCredentials env (Address ses) (Password ses)) st)
      of (err, st1) \<Rightarrow> (map_option External err, st1))"

subsection \<open>\<^verbatim>\<open>Interactive\<close>\<close>

text \<open>
  The reader is the list of the lines that are left, each without its line end (a line
  feed, or a carriage return and a line feed) and each followed by one in the stream.
  Every line is taken to be shorter than the 64 KiB a \<^verbatim>\<open>bufio.Scanner\<close> accepts, and reads
  fail only at the end of the input. The reader gives bytes only, as \<^verbatim>\<open>os.Stdin\<close> does: it
  has no \<^verbatim>\<open>UnreadRune\<close>.

  \<^verbatim>\<open>fmt\<close> reads runes, through \<^verbatim>\<open>readRune.ReadRune\<close> when the reader is not an
  \<^verbatim>\<open>io.RuneScanner\<close>. \<open>accept\<close> is the table \<^verbatim>\<open>first\<close> / \<^verbatim>\<open>acceptRanges\<close> of package \<^verbatim>\<open>utf8\<close>
  for a first byte above \<^verbatim>\<open>0x7F\<close>: the ranges of the bytes that may follow it, or \<open>None\<close>
  when no encoding starts with it. \<open>utf8_width\<close> is the number of bytes of the valid
  UTF-8 encoding a string starts with, as \<^verbatim>\<open>utf8.DecodeRune\<close> accepts them (no overlong
  forms, no surrogates, nothing above U+10FFFF), and 0 when there is none: then the first
  byte alone is read as U+FFFD.
\<close>

fun follows :: "(nat \<times> nat) list \<Rightarrow> string \<Rightarrow> bool" where
  "follows [] s = True"
| "follows ((lo, hi) # rs) [] = False"
| "follows ((lo, hi) # rs) (c # s) = (lo \<le> of_char c \<and> of_char c \<le> hi \<and> follows rs s)"

definition accept :: "char \<Rightarrow> (nat \<times> nat) list option" where
  "accept b =
     (let n = (of_char b :: nat) in
      if 0xC2 \<le> n \<and> n \<le> 0xDF then Some [(0x80, 0xBF)]
      else if n = 0xE0 then Some [(0xA0, 0xBF), (0x80, 0xBF)]
      else if n = 0xED then Some [(0x80, 0x9F), (0x80, 0xBF)]
      else if 0xE1 \<le> n \<and> n \<le> 0xEF then Some [(0x80, 0xBF), (0x80, 0xBF)]
      else if n = 0xF0 then Some [(0x90, 0xBF), (0x80, 0xBF), (0x80, 0xBF)]
      else if 0xF1 \<le> n \<and> n \<le> 0xF3 then Some [(0x80, 0xBF), (0x80, 0xBF), (0x80, 0xBF)]
      else if n = 0xF4 then Some [(0x80, 0x8F), (0x80, 0xBF), (0x80, 0xBF)]
      else None)"

definition utf8_width :: "string \<Rightarrow> nat" where
  "utf8_width s =
     (case s of
        [] \<Rightarrow> 0
      | b # s' \<Rightarrow>
          if (of_char b :: nat) < 0x80 then 1
          else
            case accept b of
              None \<Rightarrow> 0
            | Some rs \<Rightarrow> if follows rs s' then Suc (length rs) else 0)"

text \<open>
  The bytes one \<^verbatim>\<open>ReadRune\<close> consumes from a string that is not empty, and the bytes the
  rune has when it is written to the token (U+FFFD is \<^verbatim>\<open>EF BF BD\<close>).
\<close>

definition rune_width :: "string \<Rightarrow> nat" where
  "rune_width s = (if utf8_width s = 0 then 1 else utf8_width s)"

definition rune_bytes :: "string \<Rightarrow> string" where
  "rune_bytes s =
     (if utf8_width s = 0 then [CHR 0xEF, CHR 0xBF, CHR 0xBD] else take (utf8_width s) s)"

text \<open>
  To decode a rune, \<^verbatim>\<open>ReadRune\<close> takes bytes from the reader until \<^verbatim>\<open>utf8.FullRune\<close> holds:
  after the first byte of an encoding, each byte up to the length of the encoding or to
  the first byte that cannot follow, that byte included. \<open>read_width\<close> is the number of
  bytes taken. For a valid encoding it is \<open>utf8_width\<close>. Otherwise the rune is the first
  byte alone, and the bytes taken after it are kept for the next \<^verbatim>\<open>ReadRune\<close> of the same
  scan; the scan that ends there loses them. (A reader with \<^verbatim>\<open>UnreadRune\<close>, such as a
  \<^verbatim>\<open>bytes.Buffer\<close>, decodes for itself and loses nothing: for it, read \<open>rune_width\<close> for
  \<open>read_width\<close>.)
\<close>

fun ahead :: "(nat \<times> nat) list \<Rightarrow> string \<Rightarrow> nat" where
  "ahead [] s = 0"
| "ahead ((lo, hi) # rs) [] = 0"
| "ahead ((lo, hi) # rs) (c # s) =
     (if lo \<le> of_char c \<and> of_char c \<le> hi then Suc (ahead rs s) else 1)"

definition read_width :: "string \<Rightarrow> nat" where
  "read_width s =
     (case s of
        [] \<Rightarrow> 0
      | b # s' \<Rightarrow>
          if (of_char b :: nat) < 0x80 then 1
          else case accept b of None \<Rightarrow> 1 | Some rs \<Rightarrow> Suc (ahead rs s'))"

text \<open>
  \<^verbatim>\<open>s.token(true, notSpace)\<close> after the blanks were skipped: the runes up to the next
  white space or the end of the line make the word; the rest of the line is returned
  with it. \<^verbatim>\<open>fmt\<close>'s table of white space is the one of \<^verbatim>\<open>unicode.IsSpace\<close>.
\<close>

function scan_word :: "string \<Rightarrow> string \<times> string" where
  "scan_word s =
     (if s = [] \<or> leadingSpace s \<noteq> 0 then ([], s)
      else case scan_word (drop (rune_width s) s) of (w, rest) \<Rightarrow> (rune_bytes s @ w, rest))"
  by pat_completeness auto
termination
  by (relation "measure length") (auto simp: rune_width_def)

declare scan_word.simps [simp del]

text \<open>
  \<^verbatim>\<open>fmt.Fscanln(r, &v)\<close> on one line, for a string \<open>v\<close>: the word it stores, if any, and
  what it leaves of the line, if anything.
  \<^item> It skips the leading blanks. If the line ends there, the scan fails with
    "unexpected newline"; nothing is stored and the line is consumed.
  \<^item> Otherwise it stores the first word and skips the blanks after it. If the line ends
    there, the line is consumed.
  \<^item> Otherwise the scan fails with "expected newline" after it has read one more rune;
    the word stays stored, and what the reader has not given of the line is left for
    the next read. When that rune is a broken encoding at the very end of the line, the
    bytes taken for it include the line feed, and nothing of the line is left (of a line
    end with a carriage return, the line feed would be left).

  \<open>Fscanln\<close> is this on the first line of the reader. At the end of the input nothing is
  stored. \<^verbatim>\<open>Interactive\<close> drops the error of every scan.
\<close>

definition scanln_line :: "string \<Rightarrow> string option \<times> string option" where
  "scanln_line l =
     (let l1 = TrimLeft l in
      if l1 = [] then (None, None)
      else
        case scan_word l1 of
          (w, l2) \<Rightarrow>
            (let l3 = TrimLeft l2 in
             if l3 = [] then (Some w, None)
             else if length l3 < read_width (l3 @ [CHR 0x0A]) then (Some w, None)
             else (Some w, Some (drop (read_width (l3 @ [CHR 0x0A])) l3))))"

definition Fscanln :: "string \<Rightarrow> string list \<Rightarrow> string \<times> string list" where
  "Fscanln v r =
     (case r of
        [] \<Rightarrow> (v, [])
      | l # r' \<Rightarrow>
          (case scanln_line l of
             (w, rest) \<Rightarrow>
               (case w of None \<Rightarrow> v | Some x \<Rightarrow> x,
                case rest of None \<Rightarrow> r' | Some s \<Rightarrow> s # r')))"

text \<open>
  A line that \<open>Fscanln\<close> reads whole: it is empty and nothing is stored, or it is one word
  with no white space around it, in valid UTF-8, so that the word stored is the line. In
  both cases nothing of the line is left.
\<close>

definition plain :: "string \<Rightarrow> bool" where
  "plain l = (scanln_line l = (if l = [] then None else Some l, None))"

text \<open>The verb \<^verbatim>\<open>%q\<close> on a string that needs no escape.\<close>

definition quoted :: "string \<Rightarrow> string" where
  "quoted s = [CHR 0x22] @ s @ [CHR 0x22]"

text \<open>
  The two formatted texts of \<^verbatim>\<open>Interactive\<close>: the banner
  \<^verbatim>\<open>"Waiting commands for %s (or type %s to exit)\n> "\<close> and the diagnostic
  \<^verbatim>\<open>"Unsupported protocol type. Allowed %q, %q and %q protocols\n"\<close>.
\<close>

definition waiting_banner :: "Session \<Rightarrow> string" where
  "waiting_banner ses = ''Waiting commands for '' @ Address ses @ '' (or type ''
     @ CommandQuit @ '' to exit)'' @ [CHR 0x0A] @ ''> ''"

definition unsupported_message :: "config_consts \<Rightarrow> string" where
  "unsupported_message K = ''Unsupported protocol type. Allowed '' @ quoted (ProtocolRCON K)
     @ '', '' @ quoted (ProtocolWebRCON K) @ '' and '' @ quoted (ProtocolTELNET K)
     @ '' protocols'' @ [CHR 0x0A]"

text \<open>
  The inner loop \<^verbatim>\<open>for scanner.Scan() { ... }\<close> over the lines that are left. It ends
  in one of three ways: the scanner has no more lines, \<^verbatim>\<open>break Loop\<close>, or \<^verbatim>\<open>return err\<close>.
\<close>

datatype loop_exit = ScanEnd | BreakLoop | ReturnErr error

fun CommandLoop ::
  "config_consts \<Rightarrow> 'w collaborators \<Rightarrow> Session \<Rightarrow> string list \<Rightarrow> 'w io \<Rightarrow> loop_exit \<times> 'w io"
where
  "CommandLoop K env ses [] st = (ScanEnd, st)"
| "CommandLoop K env ses (command # r) st =
     (if command \<noteq> [] then
        if command = CommandQuit then (BreakLoop, st)
        else
          case Execute K env ses command st of
            (Some err, st1) \<Rightarrow> (ReturnErr err, st1)
          | (None, st1) \<Rightarrow> CommandLoop K env ses r (Fprint ''> '' st1)
      else CommandLoop K env ses r (Fprint ''> '' st))"

text \<open>
  The outer loop \<^verbatim>\<open>Loop: for { ... }\<close>, with \<^verbatim>\<open>attempt\<close> and the session as loop state.
  Nothing in the source bounds its iterations, so the model counts them: each iteration
  uses one unit of fuel, and \<open>OutOfFuel\<close> says that the loop was still running when the
  fuel ended. The state reached is returned in both cases.
\<close>

datatype outcome = Returned "error option" | OutOfFuel

fun Loop ::
  "nat \<Rightarrow> config_consts \<Rightarrow> 'w collaborators \<Rightarrow> string list \<Rightarrow> Session \<Rightarrow> nat \<Rightarrow> 'w io
     \<Rightarrow> outcome \<times> Session \<times> 'w io"
where
  "Loop 0 K env r ses attempt st = (OutOfFuel, ses, st)"
| "Loop (Suc fuel) K env r ses attempt st =
     (case
        (if Type ses = [] then
           (ses\<lparr>Type := fst (Fscanln (Type ses) r)\<rparr>, snd (Fscanln (Type ses) r),
            Fprint ''Enter protocol type (empty for rcon): '' st)
         else (ses, r, st))
      of (ses1, r1, st1) \<Rightarrow>
        if Type ses1 = ProtocolTELNET K then
          (case invoke (TelnetInteractive (Address ses1) (Password ses1))
                  (telnet_Interactive env r1 (Address ses1) (Password ses1)) st1
           of ((err, out), st2) \<Rightarrow>
             (Returned (map_option External err), ses1,
              st2\<lparr>written := written st2 @ out\<rparr>))
        else if Type ses1 = [] \<or> Type ses1 = ProtocolRCON K \<or> Type ses1 = ProtocolWebRCON K then
          (case CheckCredentials K env ses1 st1 of
             (Some err, st2) \<Rightarrow> (Returned (Some err), ses1, st2)
           | (None, st2) \<Rightarrow>
               (case CommandLoop K env ses1 r1
                       (Fprint (waiting_banner ses1) st2)
                of (BreakLoop, st3) \<Rightarrow> (Returned None, ses1, st3)
                 | (ReturnErr err, st3) \<Rightarrow> (Returned (Some err), ses1, st3)
                 | (ScanEnd, st3) \<Rightarrow> Loop fuel K env [] ses1 attempt st3))
        else
          (let st2 = Fprint (unsupported_message K) st1
           in if attempt + 1 \<ge> AttemptsLimit
              then (Returned (Some ErrToManyFails), ses1\<lparr>Type := []\<rparr>, st2)
              else Loop fuel K env r1 (ses1\<lparr>Type := []\<rparr>) (attempt + 1) st2))"

declare Loop.simps [simp del]

text \<open>
  \<^verbatim>\<open>func Interactive(r io.Reader, w io.Writer, ses *config.Session) error\<close>: the two
  prompts for a missing address and password, then the loop with \<^verbatim>\<open>attempt\<close> at 0. The
  session is changed in place, so the model returns it.
\<close>

definition Interactive ::
  "nat \<Rightarrow> config_consts \<Rightarrow> 'w collaborators \<Rightarrow> string list \<Rightarrow> Session \<Rightarrow> 'w io
     \<Rightarrow> outcome \<times> Session \<times> 'w io"
where
  "Interactive fuel K env r ses st =
     (case
        (if Address ses = [] then
           (ses\<lparr>Address := fst (Fscanln (Address ses) r)\<rparr>, snd (Fscanln (Address ses) r),
            Fprint ''Enter remote host and port [ip:port]: '' st)
         else (ses, r, st))
      of (ses1, r1, st1) \<Rightarrow>
        (case
           (if Password ses1 = [] then
              (ses1\<lparr>Password := fst (Fscanln (Password ses1) r1)\<rparr>,
               snd (Fscanln (Password ses1) r1), Fprint ''Enter password: '' st1)
            else (ses1, r1, st1))
         of (ses2, r2, st2) \<Rightarrow> Loop fuel K env r2 ses2 0 st2))"

subsection \<open>Reading the record of calls\<close>

text \<open>
  The command a call hands to a protocol client's \<^verbatim>\<open>Execute\<close>, if it is such a call, and
  the calls of a record that are such calls.
\<close>

fun client_command :: "call \<Rightarrow> string option" where
  "client_command (RconExecute a p c) = Some c"
| "client_command (TelnetExecute a p c) = Some c"
| "client_command (WebsocketExecute a p c) = Some c"
| "client_command (RconCheckCredentials a p) = None"
| "client_command (WebsocketCheckCredentials a p) = None"
| "client_command (TelnetInteractive a p) = None"
| "client_command (LoggerWrite l a c r) = None"
| "client_command (ConfigNewConfig n) = None"

definition client_Executes :: "call list \<Rightarrow> call list" where
  "client_Executes cs = filter (\<lambda>c. client_command c \<noteq> None) cs"

definition sent_commands :: "call list \<Rightarrow> string list" where
  "sent_commands cs = List.map_filter client_command cs"

text \<open>
  The protocol types the switch of \<^verbatim>\<open>Interactive\<close> has a case for, and the others, which
  fall to its \<^verbatim>\<open>default\<close>.
\<close>

definition supported :: "config_consts \<Rightarrow> string \<Rightarrow> bool" where
  "supported K t = (t = [] \<or> t = ProtocolRCON K \<or> t = ProtocolWebRCON K \<or> t = ProtocolTELNET K)"

definition unsupported :: "config_consts \<Rightarrow> string \<Rightarrow> bool" where
  "unsupported K t =
     (t \<noteq> [] \<and> t \<noteq> ProtocolRCON K \<and> t \<noteq> ProtocolWebRCON K \<and> t \<noteq> ProtocolTELNET K)"

text \<open>
  The first call \<^verbatim>\<open>Interactive\<close> makes once the protocol type of the session is a
  supported one: the telnet client's own interactive routine, or a credential check.
\<close>

definition first_call :: "config_consts \<Rightarrow> Session \<Rightarrow> call" where
  "first_call K ses =
     (if Type ses = ProtocolTELNET K then TelnetInteractive (Address ses) (Password ses)
      else if Type ses = ProtocolWebRCON K
        then WebsocketCheckCredentials (Address ses) (Password ses)
      else RconCheckCredentials (Address ses) (Password ses))"

subsection \<open>Sample inputs\<close>

text \<open>
  Constants as the upstream project declares them, a session, an empty stream state, and
  collaborators over a world that counts the calls: every protocol client answers
  \<open>res\<close>, every credential check answers \<open>chk\<close>, the logger and the loader succeed.
\<close>

definition sample_consts :: config_consts where
  "sample_consts = \<lparr>ProtocolRCON = ''rcon'', ProtocolWebRCON = ''web'',
     ProtocolTELNET = ''telnet'', DefaultConfigEnv = ''default''\<rparr>"

definition sample_session :: "string \<Rightarrow> Session" where
  "sample_session t = \<lparr>Address = ''127.0.0.1:16260'', Password = ''secret'', Type = t,
     Log = ''rcon.log''\<rparr>"

definition sample_io :: "nat io" where
  "sample_io = \<lparr>world = 0, written = [], calls = []\<rparr>"

definition sample_config :: "string \<rightharpoonup> Session" where
  "sample_config = [''default'' \<mapsto> \<lparr>Address = ''10.0.0.1:25575'', Password = ''hunter2'',
     Type = ''web'', Log = ''default.log''\<rparr>]"

definition sample_env :: "string \<times> ext_error option \<Rightarrow> ext_error option \<Rightarrow> nat collaborators" where
  "sample_env res chk =
     \<lparr>rcon_Execute = (\<lambda>a p c w. (res, Suc w)),
      rcon_CheckCredentials = (\<lambda>a p w. (chk, Suc w)),
      telnet_Execute = (\<lambda>a p c w. (res, Suc w)),
      telnet_Interactive = (\<lambda>r a p w. ((None, []), Suc w)),
      websocket_Execute = (\<lambda>a p c w. (res, Suc w)),
      websocket_CheckCredentials = (\<lambda>a p w. (chk, Suc w)),
      logger_Write = (\<lambda>l a c r w. (None, Suc w)),
      config_NewConfig = (\<lambda>n w. (Inr sample_config, Suc w))\<rparr>"

text \<open>
  Flags that give the address and the password and name a configuration file that does
  not exist, a loader that fails on every file, flags that give the address and the log
  only, and flags that give the address and select an environment the sample
  configuration does not have.
\<close>

definition sample_flags :: "string \<Rightarrow> string" where
  "sample_flags n =
     (if n = ''a'' then ''127.0.0.1:16260'' else if n = ''p'' then ''secret''
      else if n = ''cfg'' then ''/nonexistent/rcon.yaml'' else [])"

definition failing_loader :: "nat collaborators" where
  "failing_loader = (sample_env ([], None) None)
     \<lparr>config_NewConfig := (\<lambda>n w. (Inl ''open: no such file or directory'', Suc w))\<rparr>"

definition partial_flags :: "string \<Rightarrow> string" where
  "partial_flags n = (if n = ''a'' then ''127.0.0.1:16260'' else if n = ''l'' then ''my.log'' else [])"

definition staging_flags :: "string \<Rightarrow> string" where
  "staging_flags n = (if n = ''a'' then ''127.0.0.1:16260'' else if n = ''e'' then ''staging'' else [])"

section \<open>Properties\<close>

subsection \<open>Collaborator calls\<close>

lemma invoke_calls: "calls (snd (invoke c f st)) = calls st @ [c]"
  by (simp add: invoke_def split: prod.split)

lemma invoke_written: "written (snd (invoke c f st)) = written st"
  by (simp add: invoke_def split: prod.split)

lemma invoke_fst: "fst (invoke c f st) = fst (f (world st))"
  by (simp add: invoke_def split: prod.split)

lemma dispatch_written: "written (snd (dispatch K env ses command st)) = written st"
  by (simp add: dispatch_def invoke_written)

lemma dispatch_calls:
  "calls (snd (dispatch K env ses command st)) = calls st @
     [if Type ses = ProtocolTELNET K then TelnetExecute (Address ses) (Password ses) command
      else if Type ses = ProtocolWebRCON K
        then WebsocketExecute (Address ses) (Password ses) command
      else RconExecute (Address ses) (Password ses) command]"
  by (simp add: dispatch_def invoke_calls)

lemma dispatch_fst:
  "fst (dispatch K env ses command st) =
     (if Type ses = ProtocolTELNET K
        then fst (telnet_Execute env (Address ses) (Password ses) command (world st))
      else if Type ses = ProtocolWebRCON K
        then fst (websocket_Execute env (Address ses) (Password ses) command (world st))
      else fst (rcon_Execute env (Address ses) (Password ses) command (world st)))"
  by (simp add: dispatch_def invoke_fst)

lemma TrimLeft_Nil: "TrimLeft [] = []"
  by code_simp

lemma TrimRight_Nil: "TrimRight [] = []"
  by code_simp

lemma TrimSpace_Nil: "TrimSpace [] = []"
  by (simp add: TrimSpace_def TrimLeft_Nil TrimRight_Nil)

subsection \<open>Trimming\<close>

lemma space_runes_prefix_free:
  "list_all (\<lambda>e. list_all (\<lambda>e'. prefix e' e \<longrightarrow> e' = e) space_runes) space_runes"
  by code_simp

lemma space_runes_nonempty: "list_all (\<lambda>e. e \<noteq> []) space_runes"
  by code_simp

lemma leadingSpace_rune:
  assumes "e \<in> set space_runes"
  shows "leadingSpace (e @ s) = length e"
proof -
  let ?P = "\<lambda>e'. take (length e') (e @ s) = e'"
  have "?P e" by simp
  with assms have "find ?P space_runes \<noteq> None"
    by (auto simp: find_None_iff)
  then obtain e' where f: "find ?P space_runes = Some e'" by auto
  then have mem: "e' \<in> set space_runes" and pe: "?P e'"
    by (auto simp: find_Some_iff)
  from pe have "prefix e' (e @ s)"
    by (metis take_is_prefix)
  moreover have "prefix e (e @ s)" by simp
  ultimately have "prefix e' e \<or> prefix e e'"
    by (rule prefix_same_cases)
  moreover have "prefix e' e \<Longrightarrow> e' = e" and "prefix e e' \<Longrightarrow> e = e'"
    using space_runes_prefix_free assms mem by (auto simp: list_all_iff)
  ultimately have "e' = e" by auto
  with f show ?thesis by (simp add: leadingSpace_def)
qed

lemma TrimLeft_rune:
  assumes "e \<in> set space_runes"
  shows "TrimLeft (e @ s) = TrimLeft s"
proof -
  have "e \<noteq> []" using space_runes_nonempty assms by (auto simp: list_all_iff)
  then show ?thesis
    by (subst TrimLeft.simps) (simp add: leadingSpace_rune [OF assms])
qed

lemma TrimLeft_concat: "set es \<subseteq> set space_runes \<Longrightarrow> TrimLeft (concat es) = []"
  by (induction es) (simp_all add: TrimLeft_Nil TrimLeft_rune)

lemma TrimSpace_whitespace: "set es \<subseteq> set space_runes \<Longrightarrow> TrimSpace (concat es) = []"
  by (simp add: TrimSpace_def TrimLeft_concat TrimRight_Nil)

subsection \<open>What \<^verbatim>\<open>Execute\<close> writes, calls and returns\<close>

lemma Execute_written:
  assumes "command \<noteq> []" and "fst (dispatch K env ses command st) = (result, err)"
  shows "written (snd (Execute K env ses command st)) =
           written st @ (if result = [] then [] else [TrimSpace result @ [CHR 0x0A]])"
proof -
  obtain st1 where d: "dispatch K env ses command st = ((result, err), st1)"
    using assms(2) by (cases "dispatch K env ses command st") auto
  have w: "written st1 = written st"
    using dispatch_written [of K env ses command st] d by simp
  show ?thesis
    using assms(1) d w
    by (auto simp: Execute_def Fprintln_def invoke_def split: option.split prod.split)
qed

lemma Execute_calls:
  assumes "command \<noteq> []" and "fst (dispatch K env ses command st) = (result, err)"
  shows "calls (snd (Execute K env ses command st)) =
           calls (snd (dispatch K env ses command st)) @
             (case err of None \<Rightarrow> [LoggerWrite (Log ses) (Address ses) command (TrimSpace result)]
                        | Some e \<Rightarrow> [])"
proof -
  obtain st1 where d: "dispatch K env ses command st = ((result, err), st1)"
    using assms(2) by (cases "dispatch K env ses command st") auto
  show ?thesis
    using assms(1) d TrimSpace_Nil
    by (auto simp: Execute_def Fprintln_def invoke_def split: option.split prod.split)
qed

lemma Execute_client_error:
  assumes "command \<noteq> []" and "fst (dispatch K env ses command st) = (result, Some e)"
  shows "fst (Execute K env ses command st) = Some (External e)"
proof -
  obtain st1 where d: "dispatch K env ses command st = ((result, Some e), st1)"
    using assms(2) by (cases "dispatch K env ses command st") auto
  show ?thesis
    using assms(1) d
    by (auto simp: Execute_def split: option.split prod.split)
qed

lemma Execute_client_Executes:
  assumes "command \<noteq> []"
  shows "client_Executes (calls (snd (Execute K env ses command st))) =
           client_Executes (calls st) @
             [if Type ses = ProtocolTELNET K then TelnetExecute (Address ses) (Password ses) command
              else if Type ses = ProtocolWebRCON K
                then WebsocketExecute (Address ses) (Password ses) command
              else RconExecute (Address ses) (Password ses) command]"
proof -
  obtain result err where f: "fst (dispatch K env ses command st) = (result, err)"
    by (cases "fst (dispatch K env ses command st)") auto
  show ?thesis
    unfolding Execute_calls [OF assms f] dispatch_calls
    by (cases err) (simp_all add: client_Executes_def)
qed

subsection \<open>The claims about \<^verbatim>\<open>Execute\<close>\<close>

text \<open>
  C8. \<^verbatim>\<open>Execute\<close> with the empty command returns \<^verbatim>\<open>ErrCommandEmpty\<close>, an error that is
  none of the errors a protocol client or the logger can cause, and leaves the state as
  it was: no collaborator is called (nothing reaches the wire) and nothing is written.
\<close>

theorem Execute_empty_command:
  "Execute K env ses [] st = (Some ErrCommandEmpty, st)
   \<and> ErrCommandEmpty \<noteq> External e \<and> ErrCommandEmpty \<noteq> WriteLogError e'"
  by (simp add: Execute_def)

text \<open>
  C5. The dispatch of \<^verbatim>\<open>Execute\<close> is keyed on \<^verbatim>\<open>ses.Type\<close>. For a command that is not
  empty, \<^verbatim>\<open>Execute\<close> calls exactly one protocol client, with the address, the password
  and the command, and works on what that client returned: the telnet client for the
  telnet type, the websocket client for the webrcon type, and the binary rcon client for
  every other value, the empty and the unknown ones included.
\<close>

theorem Execute_dispatch_by_type:
  assumes "command \<noteq> []" and "distinct_protocols K"
  shows "(Type ses = ProtocolTELNET K \<longrightarrow>
            client_Executes (calls (snd (Execute K env ses command st))) =
              client_Executes (calls st) @ [TelnetExecute (Address ses) (Password ses) command]
            \<and> fst (dispatch K env ses command st) =
                fst (telnet_Execute env (Address ses) (Password ses) command (world st)))
       \<and> (Type ses = ProtocolWebRCON K \<longrightarrow>
            client_Executes (calls (snd (Execute K env ses command st))) =
              client_Executes (calls st) @ [WebsocketExecute (Address ses) (Password ses) command]
            \<and> fst (dispatch K env ses command st) =
                fst (websocket_Execute env (Address ses) (Password ses) command (world st)))
       \<and> (Type ses \<noteq> ProtocolTELNET K \<and> Type ses \<noteq> ProtocolWebRCON K \<longrightarrow>
            client_Executes (calls (snd (Execute K env ses command st))) =
              client_Executes (calls st) @ [RconExecute (Address ses) (Password ses) command]
            \<and> fst (dispatch K env ses command st) =
                fst (rcon_Execute env (Address ses) (Password ses) command (world st)))"
proof -
  have ne: "ProtocolWebRCON K \<noteq> ProtocolTELNET K"
    using assms(2) by (simp add: distinct_protocols_def)
  show ?thesis
    using ne by (simp add: Execute_client_Executes [OF assms(1)] dispatch_fst)
qed

theorem Execute_dispatch_by_type_witness:
  "''say hi'' \<noteq> [] \<and> distinct_protocols sample_consts
   \<and> client_Executes (calls (snd (Execute sample_consts (sample_env (''hi'', None) None)
         (sample_session ''telnet'') ''say hi'' sample_io))) =
       [TelnetExecute ''127.0.0.1:16260'' ''secret'' ''say hi'']
   \<and> client_Executes (calls (snd (Execute sample_consts (sample_env (''hi'', None) None)
         (sample_session ''web'') ''say hi'' sample_io))) =
       [WebsocketExecute ''127.0.0.1:16260'' ''secret'' ''say hi'']
   \<and> client_Executes (calls (snd (Execute sample_consts (sample_env (''hi'', None) None)
         (sample_session ''rcon'') ''say hi'' sample_io))) =
       [RconExecute ''127.0.0.1:16260'' ''secret'' ''say hi'']
   \<and> client_Executes (calls (snd (Execute sample_consts (sample_env (''hi'', None) None)
         (sample_session []) ''say hi'' sample_io))) =
       [RconExecute ''127.0.0.1:16260'' ''secret'' ''say hi'']
   \<and> client_Executes (calls (snd (Execute sample_consts (sample_env (''hi'', None) None)
         (sample_session ''ssh'') ''say hi'' sample_io))) =
       [RconExecute ''127.0.0.1:16260'' ''secret'' ''say hi'']"
proof -
  have c: "''say hi'' \<noteq> []" by simp
  have d: "distinct_protocols sample_consts"
    by (simp add: distinct_protocols_def sample_consts_def)
  note th = Execute_dispatch_by_type [OF c d, where env = "sample_env (''hi'', None) None"
      and st = sample_io]
  show ?thesis
    using c d th [of "sample_session ''telnet''"] th [of "sample_session ''web''"]
      th [of "sample_session ''rcon''"] th [of "sample_session []"]
      th [of "sample_session ''ssh''"]
    by (simp add: sample_session_def sample_consts_def sample_io_def client_Executes_def)
qed

subsection \<open>The trimmed string has no white space at either end\<close>

lemma leadingSpace_TrimLeft: "leadingSpace (TrimLeft s) = 0"
proof (induction s rule: TrimLeft.induct)
  case (1 s)
  then show ?case by (subst TrimLeft.simps) simp
qed

lemma trailingSpace_TrimRight: "trailingSpace (TrimRight s) = 0"
proof (induction s rule: TrimRight.induct)
  case (1 s)
  then show ?case by (subst TrimRight.simps) simp
qed

lemma leadingSpace_zero_iff:
  "leadingSpace s = 0 \<longleftrightarrow> find (\<lambda>e. take (length e) s = e) space_runes = None"
proof -
  have "\<And>e. find (\<lambda>e. take (length e) s = e) space_runes = Some e \<Longrightarrow> e \<noteq> []"
    using space_runes_nonempty by (auto simp: find_Some_iff list_all_iff)
  then show ?thesis
    by (auto simp: leadingSpace_def split: option.split)
qed

lemma leadingSpace_take:
  assumes "leadingSpace t = 0"
  shows "leadingSpace (take n t) = 0"
proof -
  have "take (length e) (take n t) \<noteq> e" if "e \<in> set space_runes" for e
  proof
    assume eq: "take (length e) (take n t) = e"
    then have "prefix e (take n t)" by (metis take_is_prefix)
    then have "prefix e t" using take_is_prefix prefix_order.trans by blast
    then have "take (length e) t = e" by (auto simp: prefix_def)
    with that assms show False
      by (auto simp: leadingSpace_zero_iff find_None_iff)
  qed
  then show ?thesis
    by (auto simp: leadingSpace_zero_iff find_None_iff)
qed

lemma TrimRight_is_take: "\<exists>n. TrimRight s = take n s"
proof (induction s rule: TrimRight.induct)
  case (1 s)
  show ?case
  proof (cases "trailingSpace s = 0")
    case True
    then have "TrimRight s = take (length s) s" by (subst TrimRight.simps) simp
    then show ?thesis by blast
  next
    case False
    with 1 obtain n where "TrimRight (take (length s - trailingSpace s) s) =
        take n (take (length s - trailingSpace s) s)" by blast
    with False have "TrimRight s = take (min n (length s - trailingSpace s)) s"
      by (subst TrimRight.simps) (simp add: min.commute)
    then show ?thesis by blast
  qed
qed

lemma TrimSpace_trimmed:
  "leadingSpace (TrimSpace s) = 0 \<and> trailingSpace (TrimSpace s) = 0"
proof -
  obtain n where n: "TrimRight (TrimLeft s) = take n (TrimLeft s)"
    using TrimRight_is_take by blast
  have "leadingSpace (take n (TrimLeft s)) = 0"
    by (rule leadingSpace_take) (rule leadingSpace_TrimLeft)
  then have "leadingSpace (TrimRight (TrimLeft s)) = 0"
    by (simp only: n)
  then show ?thesis
    by (simp add: TrimSpace_def trailingSpace_TrimRight)
qed

lemma TrimSpace_OK: "TrimSpace (''  OK'' @ [CHR 0x0A]) = ''OK''"
  by code_simp

text \<open>Trimming removes white space from the two ends and nothing else.\<close>

lemma TrimLeft_removes_space:
  "\<exists>es. set es \<subseteq> set space_runes \<and> s = concat es @ TrimLeft s"
proof (induction s rule: TrimLeft.induct)
  case (1 s)
  show ?case
  proof (cases "leadingSpace s = 0")
    case True
    then have "TrimLeft s = s" by (subst TrimLeft.simps) simp
    then have "set [] \<subseteq> set space_runes \<and> s = concat [] @ TrimLeft s" by simp
    then show ?thesis by blast
  next
    case False
    then obtain e where f: "find (\<lambda>e. take (length e) s = e) space_runes = Some e"
      and n: "leadingSpace s = length e"
      by (auto simp: leadingSpace_def split: option.splits)
    from f have mem: "e \<in> set space_runes" and tk: "take (length e) s = e"
      by (auto simp: find_Some_iff)
    from 1 [OF False] obtain es where es: "set es \<subseteq> set space_runes"
      and d: "drop (leadingSpace s) s = concat es @ TrimLeft (drop (leadingSpace s) s)"
      by blast
    have t: "TrimLeft s = TrimLeft (drop (leadingSpace s) s)"
      using False by (subst TrimLeft.simps) simp
    have "s = take (length e) s @ drop (length e) s" by simp
    also have "\<dots> = e @ concat es @ TrimLeft s"
      using tk d n t by simp
    finally have "s = concat (e # es) @ TrimLeft s" by simp
    moreover have "set (e # es) \<subseteq> set space_runes" using mem es by simp
    ultimately show ?thesis by blast
  qed
qed

lemma TrimRight_removes_space:
  "\<exists>es. set es \<subseteq> set space_runes \<and> s = TrimRight s @ concat es"
proof (induction s rule: TrimRight.induct)
  case (1 s)
  show ?case
  proof (cases "trailingSpace s = 0")
    case True
    then have "TrimRight s = s" by (subst TrimRight.simps) simp
    then have "set [] \<subseteq> set space_runes \<and> s = TrimRight s @ concat []" by simp
    then show ?thesis by blast
  next
    case False
    then obtain e where f: "find (\<lambda>e. length e \<le> length s \<and> drop (length s - length e) s = e)
        space_runes = Some e"
      and n: "trailingSpace s = length e"
      by (auto simp: trailingSpace_def split: option.splits)
    from f have mem: "e \<in> set space_runes" and dr: "drop (length s - length e) s = e"
      by (auto simp: find_Some_iff)
    from 1 [OF False] obtain es where es: "set es \<subseteq> set space_runes"
      and d: "take (length s - trailingSpace s) s =
          TrimRight (take (length s - trailingSpace s) s) @ concat es"
      by blast
    have t: "TrimRight s = TrimRight (take (length s - trailingSpace s) s)"
      using False by (subst TrimRight.simps) simp
    have "s = take (length s - length e) s @ drop (length s - length e) s" by simp
    also have "\<dots> = (TrimRight s @ concat es) @ e"
      using dr d n t by simp
    finally have "s = TrimRight s @ concat (es @ [e])" by simp
    moreover have "set (es @ [e]) \<subseteq> set space_runes" using mem es by simp
    ultimately show ?thesis by blast
  qed
qed

lemma TrimSpace_removes_space:
  "\<exists>ws1 ws2. set ws1 \<subseteq> set space_runes \<and> set ws2 \<subseteq> set space_runes
     \<and> s = concat ws1 @ TrimSpace s @ concat ws2"
proof -
  obtain ws1 where l: "set ws1 \<subseteq> set space_runes" "s = concat ws1 @ TrimLeft s"
    using TrimLeft_removes_space by blast
  obtain ws2 where r: "set ws2 \<subseteq> set space_runes"
    "TrimLeft s = TrimRight (TrimLeft s) @ concat ws2"
    using TrimRight_removes_space by blast
  have "s = concat ws1 @ TrimSpace s @ concat ws2"
    using l(2) r(2) by (simp add: TrimSpace_def)
  with l(1) r(1) show ?thesis by blast
qed

subsection \<open>Logging, trimming and printing in \<^verbatim>\<open>Execute\<close>\<close>

text \<open>
  C1, as stated, fails. With a log path that is not empty and a client that returns an
  error, \<^verbatim>\<open>Execute\<close> returns that error and the only call it made is the client's: the
  logger is not called.
\<close>

theorem Execute_failed_client_skips_log:
  "Log (sample_session []) \<noteq> []
   \<and> fst (Execute sample_consts (sample_env (''no'', Some ''connection refused'') None)
        (sample_session []) ''status'' sample_io) = Some (External ''connection refused'')
   \<and> calls (snd (Execute sample_consts (sample_env (''no'', Some ''connection refused'') None)
        (sample_session []) ''status'' sample_io)) =
       [RconExecute ''127.0.0.1:16260'' ''secret'' ''status'']
   \<and> \<not> (\<exists>l a c r. LoggerWrite l a c r \<in> set (calls (snd (Execute sample_consts
        (sample_env (''no'', Some ''connection refused'') None)
        (sample_session []) ''status'' sample_io))))"
  by (simp add: Execute_def dispatch_def invoke_def Fprintln_def sample_session_def
      sample_consts_def sample_env_def sample_io_def)

text \<open>
  C1, amended. \<^verbatim>\<open>Execute\<close> returns at \<^verbatim>\<open>if err != nil { return err }\<close> before it reaches
  the logger. When the client returned no error, the calls of \<^verbatim>\<open>Execute\<close> are the client's
  followed by one call of the logger with the log path, the address, the command and the
  trimmed result, whatever the log path is (an empty path is the logger's business).
  When the client returned an error, no call follows the client's and \<^verbatim>\<open>Execute\<close> returns
  that error.
\<close>

theorem Execute_logs_after_success_only:
  assumes "command \<noteq> []" and "fst (dispatch K env ses command st) = (result, err)"
  shows "(err = None \<longrightarrow>
            calls (snd (Execute K env ses command st)) =
              calls (snd (dispatch K env ses command st)) @
                [LoggerWrite (Log ses) (Address ses) command (TrimSpace result)])
       \<and> (\<forall>e. err = Some e \<longrightarrow>
            calls (snd (Execute K env ses command st)) =
              calls (snd (dispatch K env ses command st))
            \<and> fst (Execute K env ses command st) = Some (External e))"
  using Execute_calls [OF assms] Execute_client_error [OF assms(1)] assms(2) by auto

theorem Execute_logs_after_success_only_witness:
  "''status'' \<noteq> []
   \<and> fst (dispatch sample_consts (sample_env (''done'', None) None) (sample_session [])
        ''status'' sample_io) = (''done'', None)
   \<and> calls (snd (Execute sample_consts (sample_env (''done'', None) None) (sample_session [])
        ''status'' sample_io)) =
       [RconExecute ''127.0.0.1:16260'' ''secret'' ''status'',
        LoggerWrite ''rcon.log'' ''127.0.0.1:16260'' ''status'' ''done'']
   \<and> fst (dispatch sample_consts (sample_env (''no'', Some ''refused'') None) (sample_session [])
        ''status'' sample_io) = (''no'', Some ''refused'')
   \<and> calls (snd (Execute sample_consts (sample_env (''no'', Some ''refused'') None)
        (sample_session []) ''status'' sample_io)) =
       [RconExecute ''127.0.0.1:16260'' ''secret'' ''status'']
   \<and> fst (Execute sample_consts (sample_env (''no'', Some ''refused'') None)
        (sample_session []) ''status'' sample_io) = Some (External ''refused'')"
proof -
  have c: "''status'' \<noteq> []" by simp
  have d1: "fst (dispatch sample_consts (sample_env (''done'', None) None) (sample_session [])
        ''status'' sample_io) = (''done'', None)"
    by (simp add: dispatch_def invoke_def sample_session_def sample_consts_def sample_env_def)
  have d2: "fst (dispatch sample_consts (sample_env (''no'', Some ''refused'') None)
        (sample_session []) ''status'' sample_io) = (''no'', Some ''refused'')"
    by (simp add: dispatch_def invoke_def sample_session_def sample_consts_def sample_env_def)
  have t: "TrimSpace ''done'' = ''done''" by code_simp
  show ?thesis
    using c d1 d2 t Execute_logs_after_success_only [OF c d1]
      Execute_logs_after_success_only [OF c d2]
    by (simp add: dispatch_calls sample_session_def sample_consts_def sample_io_def)
qed

text \<open>
  C7. A result that is not empty is trimmed before it is used: the line written is the
  trimmed result, and when the client returned no error the last call is the logger's,
  with the trimmed result. The trimmed result is the result without the white space at
  its two ends: the result is white space, the trimmed result, white space, and the
  trimmed result starts and ends with no white space. For the result \<^verbatim>\<open>"  OK\n"\<close> it is
  \<^verbatim>\<open>"OK"\<close>.
\<close>

theorem Execute_trims_result:
  assumes "command \<noteq> []" and "fst (dispatch K env ses command st) = (result, err)"
    and "result \<noteq> []"
  shows "written (snd (Execute K env ses command st)) =
           written st @ [TrimSpace result @ [CHR 0x0A]]
       \<and> (err = None \<longrightarrow> last (calls (snd (Execute K env ses command st))) =
            LoggerWrite (Log ses) (Address ses) command (TrimSpace result))
       \<and> (\<exists>ws1 ws2. set ws1 \<subseteq> set space_runes \<and> set ws2 \<subseteq> set space_runes
            \<and> result = concat ws1 @ TrimSpace result @ concat ws2)
       \<and> leadingSpace (TrimSpace result) = 0 \<and> trailingSpace (TrimSpace result) = 0
       \<and> (result = ''  OK'' @ [CHR 0x0A] \<longrightarrow> TrimSpace result = ''OK'')"
  using Execute_written [OF assms(1,2)] Execute_calls [OF assms(1,2)] assms(3)
    TrimSpace_trimmed [of result] TrimSpace_OK TrimSpace_removes_space [of result]
  by auto

theorem Execute_trims_result_witness:
  "''status'' \<noteq> []
   \<and> fst (dispatch sample_consts (sample_env (''  OK'' @ [CHR 0x0A], None) None)
        (sample_session []) ''status'' sample_io) = (''  OK'' @ [CHR 0x0A], None)
   \<and> ''  OK'' @ [CHR 0x0A] \<noteq> []
   \<and> written (snd (Execute sample_consts (sample_env (''  OK'' @ [CHR 0x0A], None) None)
        (sample_session []) ''status'' sample_io)) = [''OK'' @ [CHR 0x0A]]
   \<and> last (calls (snd (Execute sample_consts (sample_env (''  OK'' @ [CHR 0x0A], None) None)
        (sample_session []) ''status'' sample_io))) =
       LoggerWrite ''rcon.log'' ''127.0.0.1:16260'' ''status'' ''OK''"
proof -
  have c: "''status'' \<noteq> []" by simp
  have d: "fst (dispatch sample_consts (sample_env (''  OK'' @ [CHR 0x0A], None) None)
        (sample_session []) ''status'' sample_io) = (''  OK'' @ [CHR 0x0A], None)"
    by (simp add: dispatch_def invoke_def sample_session_def sample_consts_def sample_env_def)
  have n: "''  OK'' @ [CHR 0x0A] \<noteq> []" by simp
  show ?thesis
    using c d n Execute_trims_result [OF c d n]
    by (simp add: sample_session_def sample_io_def)
qed

text \<open>
  C10. For a command that is not empty, \<^verbatim>\<open>Execute\<close> writes if and only if the result the
  client returned, before trimming, is not empty, whether or not the client also
  returned an error. An empty result writes nothing, not even a line end; a result that
  is not empty writes one line, the trimmed result; a result made of white space only
  writes the empty line.
\<close>

theorem Execute_writes_iff_result_nonempty:
  assumes "command \<noteq> []" and "fst (dispatch K env ses command st) = (result, err)"
  shows "(written (snd (Execute K env ses command st)) \<noteq> written st) = (result \<noteq> [])
       \<and> (result = [] \<longrightarrow> written (snd (Execute K env ses command st)) = written st)
       \<and> (result \<noteq> [] \<longrightarrow> written (snd (Execute K env ses command st)) =
            written st @ [TrimSpace result @ [CHR 0x0A]])
       \<and> (result \<noteq> [] \<and> result = concat es \<and> set es \<subseteq> set space_runes \<longrightarrow>
            written (snd (Execute K env ses command st)) = written st @ [[CHR 0x0A]])"
  using Execute_written [OF assms] TrimSpace_whitespace [of es] by auto

theorem Execute_writes_iff_result_nonempty_witness:
  "''status'' \<noteq> []
   \<and> fst (dispatch sample_consts (sample_env ([], None) None) (sample_session [])
        ''status'' sample_io) = ([], None)
   \<and> written (snd (Execute sample_consts (sample_env ([], None) None) (sample_session [])
        ''status'' sample_io)) = []
   \<and> fst (dispatch sample_consts (sample_env ([CHR 0x20, CHR 0x09, CHR 0x0A], None) None)
        (sample_session []) ''status'' sample_io) = ([CHR 0x20, CHR 0x09, CHR 0x0A], None)
   \<and> [CHR 0x20, CHR 0x09, CHR 0x0A] = concat [[CHR 0x20], [CHR 0x09], [CHR 0x0A]]
   \<and> set [[CHR 0x20], [CHR 0x09], [CHR 0x0A]] \<subseteq> set space_runes
   \<and> written (snd (Execute sample_consts
        (sample_env ([CHR 0x20, CHR 0x09, CHR 0x0A], None) None) (sample_session [])
        ''status'' sample_io)) = [[CHR 0x0A]]"
proof -
  have c: "''status'' \<noteq> []" by simp
  have d1: "fst (dispatch sample_consts (sample_env ([], None) None) (sample_session [])
        ''status'' sample_io) = ([], None)"
    by (simp add: dispatch_def invoke_def sample_session_def sample_consts_def sample_env_def)
  have d2: "fst (dispatch sample_consts (sample_env ([CHR 0x20, CHR 0x09, CHR 0x0A], None) None)
        (sample_session []) ''status'' sample_io) = ([CHR 0x20, CHR 0x09, CHR 0x0A], None)"
    by (simp add: dispatch_def invoke_def sample_session_def sample_consts_def sample_env_def)
  have s: "set [[CHR 0x20], [CHR 0x09], [CHR 0x0A]] \<subseteq> set space_runes"
    by (simp add: space_runes_def asciiSpace_def)
  have t: "TrimSpace [CHR 0x20, CHR 0x09, CHR 0x0A] = []"
    by code_simp
  show ?thesis
    using c d1 d2 s t Execute_writes_iff_result_nonempty [OF c d1]
      Execute_writes_iff_result_nonempty [OF c d2,
        of "[[CHR 0x20], [CHR 0x09], [CHR 0x0A]]"]
    by (simp add: sample_io_def)
qed

subsection \<open>The claims about \<^verbatim>\<open>NewSession\<close>\<close>

text \<open>
  C4. When the flags \<^verbatim>\<open>a\<close> and \<^verbatim>\<open>p\<close> are both non-empty, \<^verbatim>\<open>NewSession\<close> returns the
  session built from the flags and no error, and leaves the state as it was: the loader
  of the configuration is not called. The session therefore is the same for all
  collaborators, constants and states, a loader that fails included.
\<close>

theorem NewSession_flags_skip_config:
  assumes "c ''a'' \<noteq> []" and "c ''p'' \<noteq> []"
  shows "NewSession K env c st =
           ((\<lparr>Address = c ''a'', Password = c ''p'', Type = c ''t'', Log = c ''l''\<rparr>, None), st)
       \<and> fst (NewSession K env c st) = fst (NewSession K' env' c st')"
  using assms by (simp add: NewSession_def)

theorem NewSession_flags_skip_config_witness:
  "sample_flags ''a'' \<noteq> [] \<and> sample_flags ''p'' \<noteq> []
   \<and> NewSession sample_consts failing_loader sample_flags sample_io =
       ((\<lparr>Address = ''127.0.0.1:16260'', Password = ''secret'', Type = [], Log = []\<rparr>, None),
        sample_io)
   \<and> fst (NewSession sample_consts failing_loader sample_flags sample_io) =
       fst (NewSession sample_consts (sample_env ([], None) None) sample_flags sample_io)"
proof -
  have a: "sample_flags ''a'' \<noteq> []" and p: "sample_flags ''p'' \<noteq> []"
    by (simp_all add: sample_flags_def)
  have v: "sample_flags ''a'' = ''127.0.0.1:16260''" "sample_flags ''p'' = ''secret''"
    "sample_flags ''t'' = []" "sample_flags ''l'' = []"
    by (simp_all add: sample_flags_def)
  note th = NewSession_flags_skip_config [OF a p, of sample_consts failing_loader sample_io
      sample_consts "sample_env ([], None) None" sample_io, unfolded v]
  from th have "fst (NewSession sample_consts failing_loader sample_flags sample_io) =
      fst (NewSession sample_consts (sample_env ([], None) None) sample_flags sample_io)"
    by (rule conjunct2)
  with th a p show ?thesis by blast
qed

text \<open>
  C6. When \<^verbatim>\<open>NewSession\<close> consults the configuration (a flag of \<^verbatim>\<open>a\<close>, \<^verbatim>\<open>p\<close> is empty) and
  the loader returns a configuration, each of the four fields is resolved on its own:
  it is the flag when the flag is not empty, and otherwise the field of the selected
  environment, \<^verbatim>\<open>(*cfg)[e]\<close>, where \<open>e\<close> is the flag \<^verbatim>\<open>e\<close> or the default name. Indexing
  gives the environment stored under \<open>e\<close>, and the zero session when there is none.
\<close>

theorem NewSession_precedence:
  assumes "c ''a'' = [] \<or> c ''p'' = []"
    and "fst (config_NewConfig env (c ''cfg'') (world st)) = Inr cfg"
    and "e = (if c ''e'' = [] then DefaultConfigEnv K else c ''e'')"
  shows "snd (fst (NewSession K env c st)) = None
       \<and> Address (fst (fst (NewSession K env c st))) =
           (if c ''a'' \<noteq> [] then c ''a'' else Address (index_Config cfg e))
       \<and> Password (fst (fst (NewSession K env c st))) =
           (if c ''p'' \<noteq> [] then c ''p'' else Password (index_Config cfg e))
       \<and> Log (fst (fst (NewSession K env c st))) =
           (if c ''l'' \<noteq> [] then c ''l'' else Log (index_Config cfg e))
       \<and> Type (fst (fst (NewSession K env c st))) =
           (if c ''t'' \<noteq> [] then c ''t'' else Type (index_Config cfg e))
       \<and> (\<forall>s. cfg e = Some s \<longrightarrow> index_Config cfg e = s)
       \<and> (cfg e = None \<longrightarrow> index_Config cfg e = zero_Session)"
proof -
  obtain w' where l: "config_NewConfig env (c ''cfg'') (world st) = (Inr cfg, w')"
    using assms(2) by (cases "config_NewConfig env (c ''cfg'') (world st)") auto
  show ?thesis
    using assms(1,3) l
    by (auto simp: NewSession_def invoke_def Let_def index_Config_def)
qed

theorem NewSession_precedence_witness:
  "(partial_flags ''a'' = [] \<or> partial_flags ''p'' = [])
   \<and> fst (config_NewConfig (sample_env ([], None) None) (partial_flags ''cfg'') (world sample_io))
       = Inr sample_config
   \<and> sample_config ''default'' = Some \<lparr>Address = ''10.0.0.1:25575'', Password = ''hunter2'',
        Type = ''web'', Log = ''default.log''\<rparr>
   \<and> fst (NewSession sample_consts (sample_env ([], None) None) partial_flags sample_io) =
       (\<lparr>Address = ''127.0.0.1:16260'', Password = ''hunter2'', Type = ''web'', Log = ''my.log''\<rparr>,
        None)
   \<and> (staging_flags ''a'' = [] \<or> staging_flags ''p'' = [])
   \<and> sample_config ''staging'' = None
   \<and> fst (NewSession sample_consts (sample_env ([], None) None) staging_flags sample_io) =
       (\<lparr>Address = ''127.0.0.1:16260'', Password = [], Type = [], Log = []\<rparr>, None)"
proof -
  have h1: "partial_flags ''a'' = [] \<or> partial_flags ''p'' = []"
    by (simp add: partial_flags_def)
  have h2: "fst (config_NewConfig (sample_env ([], None) None) (partial_flags ''cfg'')
      (world sample_io)) = Inr sample_config"
    by (simp add: sample_env_def)
  have h3: "''default'' = (if partial_flags ''e'' = [] then DefaultConfigEnv sample_consts
      else partial_flags ''e'')"
    by (simp add: partial_flags_def sample_consts_def)
  have s: "sample_config ''default'' = Some \<lparr>Address = ''10.0.0.1:25575'',
      Password = ''hunter2'', Type = ''web'', Log = ''default.log''\<rparr>"
    by (simp add: sample_config_def)
  have v: "partial_flags ''a'' = ''127.0.0.1:16260''" "partial_flags ''p'' = []"
    "partial_flags ''t'' = []" "partial_flags ''l'' = ''my.log''"
    by (simp_all add: partial_flags_def)
  have i: "index_Config sample_config ''default'' = \<lparr>Address = ''10.0.0.1:25575'',
      Password = ''hunter2'', Type = ''web'', Log = ''default.log''\<rparr>"
    by (simp add: index_Config_def s)
  have one: "fst (NewSession sample_consts (sample_env ([], None) None) partial_flags sample_io) =
      (\<lparr>Address = ''127.0.0.1:16260'', Password = ''hunter2'', Type = ''web'',
        Log = ''my.log''\<rparr>, None)"
    using NewSession_precedence [OF h1 h2 h3]
    by (simp only: v i prod_eq_iff fst_conv snd_conv) (simp add: Session.equality)
  have g1: "staging_flags ''a'' = [] \<or> staging_flags ''p'' = []"
    by (simp add: staging_flags_def)
  have g2: "fst (config_NewConfig (sample_env ([], None) None) (staging_flags ''cfg'')
      (world sample_io)) = Inr sample_config"
    by (simp add: sample_env_def)
  have g3: "''staging'' = (if staging_flags ''e'' = [] then DefaultConfigEnv sample_consts
      else staging_flags ''e'')"
    by (simp add: staging_flags_def)
  have n: "sample_config ''staging'' = None"
    by (simp add: sample_config_def)
  have w: "staging_flags ''a'' = ''127.0.0.1:16260''" "staging_flags ''p'' = []"
    "staging_flags ''t'' = []" "staging_flags ''l'' = []"
    by (simp_all add: staging_flags_def)
  have z: "index_Config sample_config ''staging'' = \<lparr>Address = [], Password = [], Type = [],
      Log = []\<rparr>"
    using NewSession_precedence [OF g1 g2 g3] n by (simp add: zero_Session_def)
  have two: "fst (NewSession sample_consts (sample_env ([], None) None) staging_flags sample_io) =
      (\<lparr>Address = ''127.0.0.1:16260'', Password = [], Type = [], Log = []\<rparr>, None)"
    using NewSession_precedence [OF g1 g2 g3]
    by (simp only: w z prod_eq_iff fst_conv snd_conv) (simp add: Session.equality)
  from h1 h2 s one g1 n two show ?thesis by simp
qed

subsection \<open>The loops of \<^verbatim>\<open>Interactive\<close>\<close>

lemma Fscanln_Nil: "Fscanln v [] = (v, [])"
  by (simp add: Fscanln_def)

lemma Fscanln_plain: "plain l \<Longrightarrow> Fscanln v (l # r) = (if l = [] then v else l, r)"
  by (simp add: Fscanln_def plain_def)

lemma Fscanln_plain_rest: "list_all plain r \<Longrightarrow> snd (Fscanln v r) = tl r"
  by (cases r) (simp_all add: Fscanln_Nil Fscanln_plain)

lemma Fscanln_plain_word:
  "list_all plain r \<Longrightarrow> fst (Fscanln v r) = v \<or> fst (Fscanln v r) \<in> set r"
  by (cases r) (simp_all add: Fscanln_Nil Fscanln_plain)

text \<open>
  A broken encoding apart, \<^verbatim>\<open>ReadRune\<close> takes the bytes of the rune it returns.
\<close>

lemma ahead_follows: "follows rs s \<Longrightarrow> ahead rs s = length rs"
  by (induction rs s rule: follows.induct) simp_all

lemma read_width_valid: "utf8_width s \<noteq> 0 \<Longrightarrow> read_width s = utf8_width s"
  by (cases s) (auto simp: utf8_width_def read_width_def ahead_follows split: option.splits if_splits)

text \<open>
  A line of graphic ASCII characters is plain: so are the names of the protocols, \<^verbatim>\<open>:q\<close>,
  and an address such as \<^verbatim>\<open>127.0.0.1:16260\<close>.
\<close>

lemma space_runes_first_byte:
  "list_all (\<lambda>e. e \<noteq> [] \<and> ((of_char (hd e) :: nat) < 0x21 \<or> 0x80 \<le> (of_char (hd e) :: nat)))
     space_runes"
  by code_simp

lemma leadingSpace_graphic:
  assumes "0x21 \<le> (of_char c :: nat)" and "(of_char c :: nat) < 0x80"
  shows "leadingSpace (c # s) = 0"
proof -
  have "take (length e) (c # s) \<noteq> e" if "e \<in> set space_runes" for e
  proof
    assume t: "take (length e) (c # s) = e"
    from that space_runes_first_byte
    have e: "e \<noteq> []" "(of_char (hd e) :: nat) < 0x21 \<or> 0x80 \<le> (of_char (hd e) :: nat)"
      by (auto simp: list_all_iff)
    from e(1) t have "hd e = c" by (cases e) auto
    with e(2) assms show False by simp
  qed
  then have "find (\<lambda>e. take (length e) (c # s) = e) space_runes = None"
    by (simp add: find_None_iff)
  then show ?thesis by (simp add: leadingSpace_def)
qed

lemma scan_word_graphic:
  "list_all (\<lambda>c. 0x21 \<le> (of_char c :: nat) \<and> (of_char c :: nat) < 0x80) l \<Longrightarrow> scan_word l = (l, [])"
proof (induction l)
  case Nil
  show ?case by (simp add: scan_word.simps)
next
  case (Cons c l)
  then have c: "0x21 \<le> (of_char c :: nat)" "(of_char c :: nat) < 0x80" by simp_all
  have w: "utf8_width (c # l) = 1" using c by (simp add: utf8_width_def)
  have "scan_word (c # l) = (case scan_word l of (w, rest) \<Rightarrow> (c # w, rest))"
    using leadingSpace_graphic [OF c, of l]
    by (subst scan_word.simps) (simp add: rune_width_def rune_bytes_def w)
  with Cons show ?case by simp
qed

lemma plain_graphic:
  assumes "list_all (\<lambda>c. 0x21 \<le> (of_char c :: nat) \<and> (of_char c :: nat) < 0x80) l"
  shows "plain l"
proof (cases l)
  case Nil
  then show ?thesis by (simp add: plain_def scanln_line_def TrimLeft_Nil)
next
  case (Cons c s)
  with assms have c: "0x21 \<le> (of_char c :: nat)" "(of_char c :: nat) < 0x80" by simp_all
  have "TrimLeft l = l"
    using leadingSpace_graphic [OF c, of s] Cons by (subst TrimLeft.simps) simp
  then show ?thesis
    using scan_word_graphic [OF assms] Cons
    by (simp add: plain_def scanln_line_def TrimLeft_Nil)
qed

lemma Fprint_calls: "calls (Fprint s st) = calls st"
  by (simp add: Fprint_def)

lemma Execute_calls_prefix: "prefix (calls st) (calls (snd (Execute K env ses command st)))"
proof (cases "command = []")
  case True
  then show ?thesis by (simp add: Execute_def)
next
  case False
  obtain result err where f: "fst (dispatch K env ses command st) = (result, err)"
    by (cases "fst (dispatch K env ses command st)") auto
  show ?thesis
    unfolding Execute_calls [OF False f] dispatch_calls by simp
qed

lemma Execute_error_kinds:
  assumes "fst (Execute K env ses command st) = Some err"
  shows "err = ErrCommandEmpty \<or> (\<exists>e. err = External e) \<or> (\<exists>e. err = WriteLogError (External e))"
  using assms
  by (auto simp: Execute_def split: if_splits prod.splits option.splits)

lemma CheckCredentials_calls:
  "calls (snd (CheckCredentials K env ses st)) = calls st @
     [if Type ses = ProtocolWebRCON K then WebsocketCheckCredentials (Address ses) (Password ses)
      else RconCheckCredentials (Address ses) (Password ses)]"
  by (simp add: CheckCredentials_def invoke_def split: prod.split)

lemma CheckCredentials_error:
  "fst (CheckCredentials K env ses st) = Some err \<Longrightarrow> \<exists>e. err = External e"
  by (auto simp: CheckCredentials_def split: prod.splits if_splits)

lemma CommandLoop_calls_prefix:
  "prefix (calls st) (calls (snd (CommandLoop K env ses r st)))"
proof (induction r arbitrary: st)
  case Nil
  show ?case by simp
next
  case (Cons command r)
  show ?case
  proof (cases "command = [] \<or> command = CommandQuit")
    case True
    then show ?thesis using Cons [of "Fprint ''> '' st"] by (auto simp: Fprint_calls)
  next
    case False
    obtain err st1 where e: "Execute K env ses command st = (err, st1)"
      by (cases "Execute K env ses command st") auto
    have p: "prefix (calls st) (calls st1)"
      using Execute_calls_prefix [of st K env ses command] e by simp
    show ?thesis
    proof (cases err)
      case None
      have "prefix (calls st1) (calls (snd (CommandLoop K env ses r (Fprint ''> '' st1))))"
        using Cons [of "Fprint ''> '' st1"] by (simp add: Fprint_calls)
      with p have "prefix (calls st) (calls (snd (CommandLoop K env ses r (Fprint ''> '' st1))))"
        by (rule prefix_order.trans)
      with False e None show ?thesis by simp
    next
      case (Some a)
      with False e p show ?thesis by simp
    qed
  qed
qed

lemma CommandLoop_error:
  "CommandLoop K env ses r st = (ReturnErr err, st') \<Longrightarrow> err \<noteq> ErrToManyFails"
proof (induction r arbitrary: st)
  case Nil
  then show ?case by simp
next
  case (Cons command r)
  show ?case
  proof (cases "command = [] \<or> command = CommandQuit")
    case True
    then show ?thesis using Cons by (auto split: if_splits)
  next
    case False
    obtain e st1 where ex: "Execute K env ses command st = (e, st1)"
      by (cases "Execute K env ses command st") auto
    show ?thesis
    proof (cases e)
      case None
      with False ex Cons show ?thesis by auto
    next
      case (Some a)
      with False ex Cons.prems have "err = a" by simp
      moreover have "a \<noteq> ErrToManyFails"
        using Execute_error_kinds [of K env ses command st a] ex Some by auto
      ultimately show ?thesis by simp
    qed
  qed
qed

lemma CommandLoop_append:
  "CommandLoop K env ses (pre @ r) st =
     (case CommandLoop K env ses pre st of
        (ScanEnd, st') \<Rightarrow> CommandLoop K env ses r st'
      | (BreakLoop, st') \<Rightarrow> (BreakLoop, st')
      | (ReturnErr err, st') \<Rightarrow> (ReturnErr err, st'))"
proof (induction pre arbitrary: st)
  case Nil
  show ?case by simp
next
  case (Cons command pre)
  show ?case
    by (simp add: Cons split: prod.split option.split)
qed

lemma CommandLoop_sent:
  "set (sent_commands (calls (snd (CommandLoop K env ses r st)))) \<subseteq>
     set (sent_commands (calls st)) \<union> (set r - {[], CommandQuit})"
proof (induction r arbitrary: st)
  case Nil
  show ?case by simp
next
  case (Cons command r)
  show ?case
  proof (cases "command = [] \<or> command = CommandQuit")
    case True
    then show ?thesis using Cons [of "Fprint ''> '' st"] by (auto simp: Fprint_calls)
  next
    case False
    then have ne: "command \<noteq> []" by simp
    obtain err st1 where e: "Execute K env ses command st = (err, st1)"
      by (cases "Execute K env ses command st") auto
    obtain result cerr where f: "fst (dispatch K env ses command st) = (result, cerr)"
      by (cases "fst (dispatch K env ses command st)") auto
    have "sent_commands (calls st1) = sent_commands (calls st) @ [command]"
      using Execute_calls [OF ne f] e
      by (cases cerr) (simp_all add: dispatch_calls sent_commands_def map_filter_def)
    then have s1: "set (sent_commands (calls st1)) = set (sent_commands (calls st)) \<union> {command}"
      by simp
    show ?thesis
    proof (cases err)
      case None
      have "set (sent_commands (calls (snd (CommandLoop K env ses r (Fprint ''> '' st1))))) \<subseteq>
          set (sent_commands (calls st1)) \<union> (set r - {[], CommandQuit})"
        using Cons [of "Fprint ''> '' st1"] by (simp add: Fprint_calls)
      with s1 False e None show ?thesis by auto
    next
      case (Some a)
      with s1 False e show ?thesis by auto
    qed
  qed
qed

text \<open>One iteration of the outer loop, by the kind of the type it looks at.\<close>

lemma Loop_unsupported_entry:
  assumes "Type ses = []" and "Fscanln [] r = (e, r')" and "unsupported K e"
  shows "Loop (Suc n) K env r ses attempt st =
           (let st' = Fprint (unsupported_message K)
                        (Fprint ''Enter protocol type (empty for rcon): '' st)
            in if attempt + 1 \<ge> AttemptsLimit then (Returned (Some ErrToManyFails), ses, st')
               else Loop n K env r' ses (attempt + 1) st')"
proof -
  have eq: "ses\<lparr>Type := []\<rparr> = ses"
    using assms(1) by (cases ses) simp
  have "Loop (Suc n) K env r ses attempt st =
           (let st' = Fprint (unsupported_message K)
                        (Fprint ''Enter protocol type (empty for rcon): '' st)
            in if attempt + 1 \<ge> AttemptsLimit
               then (Returned (Some ErrToManyFails), ses\<lparr>Type := []\<rparr>, st')
               else Loop n K env r' (ses\<lparr>Type := []\<rparr>) (attempt + 1) st')"
    using assms by (simp add: Loop.simps unsupported_def Let_def)
  then show ?thesis
    unfolding eq .
qed

text \<open>
  A type that the session brings along (from a flag or the configuration) is looked at
  without a prompt. When it is unsupported it is counted like an entry.
\<close>

lemma Loop_unsupported_preset:
  assumes "unsupported K (Type ses)"
  shows "Loop (Suc n) K env r ses attempt st =
           (let st' = Fprint (unsupported_message K) st
            in if attempt + 1 \<ge> AttemptsLimit
               then (Returned (Some ErrToManyFails), ses\<lparr>Type := []\<rparr>, st')
               else Loop n K env r (ses\<lparr>Type := []\<rparr>) (attempt + 1) st')"
  using assms by (simp add: Loop.simps unsupported_def Let_def)

lemma Loop_calls_prefix:
  "prefix (calls st) (calls (snd (snd (Loop n K env r ses attempt st))))"
proof (induction n arbitrary: r ses attempt st)
  case 0
  show ?case by (simp add: Loop.simps)
next
  case (Suc n)
  define ses1 where "ses1 = (if Type ses = [] then ses\<lparr>Type := fst (Fscanln (Type ses) r)\<rparr> else ses)"
  define r1 where "r1 = (if Type ses = [] then snd (Fscanln (Type ses) r) else r)"
  define st1 where "st1 = (if Type ses = [] then Fprint ''Enter protocol type (empty for rcon): '' st else st)"
  have c1: "calls st1 = calls st" by (simp add: st1_def Fprint_calls)
  have pre: "(if Type ses = [] then
           (ses\<lparr>Type := fst (Fscanln (Type ses) r)\<rparr>, snd (Fscanln (Type ses) r),
            Fprint ''Enter protocol type (empty for rcon): '' st)
         else (ses, r, st)) = (ses1, r1, st1)"
    by (simp add: ses1_def r1_def st1_def)
  consider (telnet) "Type ses1 = ProtocolTELNET K"
    | (check) "Type ses1 \<noteq> ProtocolTELNET K"
        "Type ses1 = [] \<or> Type ses1 = ProtocolRCON K \<or> Type ses1 = ProtocolWebRCON K"
    | (other) "Type ses1 \<noteq> ProtocolTELNET K"
        "\<not> (Type ses1 = [] \<or> Type ses1 = ProtocolRCON K \<or> Type ses1 = ProtocolWebRCON K)"
    by blast
  then show ?case
  proof cases
    case telnet
    then show ?thesis
      unfolding Loop.simps pre
      by (simp add: invoke_def c1 split: prod.split)
  next
    case check
    obtain err st2 where cc: "CheckCredentials K env ses1 st1 = (err, st2)"
      by (cases "CheckCredentials K env ses1 st1") auto
    have p2: "prefix (calls st) (calls st2)"
      using CheckCredentials_calls [of K env ses1 st1] cc c1 by simp
    show ?thesis
    proof (cases err)
      case (Some a)
      with check cc p2 show ?thesis
        unfolding Loop.simps pre by simp
    next
      case None
      let ?b = "Fprint (waiting_banner ses1) st2"
      obtain ex st3 where cl: "CommandLoop K env ses1 r1 ?b = (ex, st3)"
        by (cases "CommandLoop K env ses1 r1 ?b") auto
      have "prefix (calls ?b) (calls st3)"
        using CommandLoop_calls_prefix [of ?b K env ses1 r1] cl by simp
      with p2 have p3: "prefix (calls st) (calls st3)"
        by (simp add: Fprint_calls)
      show ?thesis
      proof (cases ex)
        case ScanEnd
        have "prefix (calls st3) (calls (snd (snd (Loop n K env [] ses1 attempt st3))))"
          by (rule Suc)
        with p3 have "prefix (calls st) (calls (snd (snd (Loop n K env [] ses1 attempt st3))))"
          by (rule prefix_order.trans)
        with check cc None cl ScanEnd show ?thesis
          unfolding Loop.simps pre by simp
      next
        case BreakLoop
        with check cc None cl p3 show ?thesis
          unfolding Loop.simps pre by simp
      next
        case (ReturnErr e)
        with check cc None cl p3 show ?thesis
          unfolding Loop.simps pre by simp
      qed
    qed
  next
    case other
    let ?m = "Fprint (unsupported_message K) st1"
    have "prefix (calls ?m) (calls (snd (snd (Loop n K env r1 (ses1\<lparr>Type := []\<rparr>) (attempt + 1) ?m))))"
      by (rule Suc)
    then have "prefix (calls st) (calls (snd (snd (Loop n K env r1 (ses1\<lparr>Type := []\<rparr>) (attempt + 1) ?m))))"
      by (simp add: Fprint_calls c1)
    with other show ?thesis
      unfolding Loop.simps pre by (simp add: Let_def Fprint_calls c1)
  qed
qed

text \<open>
  Once the type the loop looks at is a supported one, the loop never ends with
  \<^verbatim>\<open>ErrToManyFails\<close>, and the first thing it does is \<open>first_call\<close>.
\<close>

lemma Loop_prompt:
  "(if Type ses = [] then
      (ses\<lparr>Type := fst (Fscanln (Type ses) r)\<rparr>, snd (Fscanln (Type ses) r),
       Fprint ''Enter protocol type (empty for rcon): '' st)
    else (ses, r, st)) =
   (ses\<lparr>Type := (if Type ses = [] then fst (Fscanln (Type ses) r) else Type ses)\<rparr>,
    (if Type ses = [] then snd (Fscanln (Type ses) r) else r),
    (if Type ses = [] then Fprint ''Enter protocol type (empty for rcon): '' st else st))"
  by (cases ses) simp

lemma Loop_supported_no_ErrToManyFails:
  assumes "distinct_protocols K"
    and "supported K (if Type ses = [] then fst (Fscanln (Type ses) r) else Type ses)"
  shows "fst (Loop n K env r ses attempt st) \<noteq> Returned (Some ErrToManyFails)"
  using assms(2)
proof (induction n arbitrary: r ses attempt st)
  case 0
  show ?case by (simp add: Loop.simps)
next
  case (Suc n)
  define t where "t = (if Type ses = [] then fst (Fscanln (Type ses) r) else Type ses)"
  define ses1 where "ses1 = ses\<lparr>Type := t\<rparr>"
  define r1 where "r1 = (if Type ses = [] then snd (Fscanln (Type ses) r) else r)"
  define st1 where "st1 = (if Type ses = [] then Fprint ''Enter protocol type (empty for rcon): '' st else st)"
  have pre: "(if Type ses = [] then
           (ses\<lparr>Type := fst (Fscanln (Type ses) r)\<rparr>, snd (Fscanln (Type ses) r),
            Fprint ''Enter protocol type (empty for rcon): '' st)
         else (ses, r, st)) = (ses1, r1, st1)"
    unfolding Loop_prompt ses1_def r1_def st1_def t_def ..
  have ty: "Type ses1 = t" by (simp add: ses1_def)
  have sup: "supported K t" using Suc.prems by (simp add: t_def)
  show ?case
  proof (cases "t = ProtocolTELNET K")
    case True
    then show ?thesis
      unfolding Loop.simps pre
      by (simp add: ty split: prod.split option.split)
  next
    case False
    with sup have ch: "Type ses1 = [] \<or> Type ses1 = ProtocolRCON K \<or> Type ses1 = ProtocolWebRCON K"
      by (simp add: supported_def ty)
    from False have nt: "Type ses1 \<noteq> ProtocolTELNET K" by (simp add: ty)
    obtain err st2 where cc: "CheckCredentials K env ses1 st1 = (err, st2)"
      by (cases "CheckCredentials K env ses1 st1") auto
    show ?thesis
    proof (cases err)
      case (Some a)
      then have "a \<noteq> ErrToManyFails"
        using CheckCredentials_error [of K env ses1 st1 a] cc by auto
      with nt ch cc Some show ?thesis
        unfolding Loop.simps pre by simp
    next
      case None
      let ?b = "Fprint (waiting_banner ses1) st2"
      obtain ex st3 where cl: "CommandLoop K env ses1 r1 ?b = (ex, st3)"
        by (cases "CommandLoop K env ses1 r1 ?b") auto
      show ?thesis
      proof (cases ex)
        case ScanEnd
        have "supported K (if Type ses1 = [] then fst (Fscanln (Type ses1) []) else Type ses1)"
          using sup by (auto simp: ty Fscanln_Nil)
        then have "fst (Loop n K env [] ses1 attempt st3) \<noteq> Returned (Some ErrToManyFails)"
          by (rule Suc.IH)
        with nt ch cc None cl ScanEnd show ?thesis
          unfolding Loop.simps pre by simp
      next
        case BreakLoop
        with nt ch cc None cl show ?thesis
          unfolding Loop.simps pre by simp
      next
        case (ReturnErr e)
        then have "e \<noteq> ErrToManyFails"
          using CommandLoop_error [of K env ses1 r1 ?b e st3] cl by simp
        with nt ch cc None cl ReturnErr show ?thesis
          unfolding Loop.simps pre by simp
      qed
    qed
  qed
qed

lemma Loop_supported_first_call:
  assumes "distinct_protocols K"
    and "t = (if Type ses = [] then fst (Fscanln (Type ses) r) else Type ses)"
    and "supported K t"
  shows "prefix (calls st @ [first_call K (ses\<lparr>Type := t\<rparr>)])
           (calls (snd (snd (Loop (Suc n) K env r ses attempt st))))"
proof -
  define ses1 where "ses1 = ses\<lparr>Type := t\<rparr>"
  define r1 where "r1 = (if Type ses = [] then snd (Fscanln (Type ses) r) else r)"
  define st1 where "st1 = (if Type ses = [] then Fprint ''Enter protocol type (empty for rcon): '' st else st)"
  have pre: "(if Type ses = [] then
           (ses\<lparr>Type := fst (Fscanln (Type ses) r)\<rparr>, snd (Fscanln (Type ses) r),
            Fprint ''Enter protocol type (empty for rcon): '' st)
         else (ses, r, st)) = (ses1, r1, st1)"
    unfolding Loop_prompt ses1_def r1_def st1_def assms(2) ..
  have ty: "Type ses1 = t" by (simp add: ses1_def)
  have c1: "calls st1 = calls st" by (simp add: st1_def Fprint_calls)
  show ?thesis
  proof (cases "t = ProtocolTELNET K")
    case True
    then show ?thesis
      unfolding Loop.simps pre ses1_def [symmetric]
      by (simp add: ty first_call_def invoke_def c1 split: prod.split)
  next
    case False
    with assms(3) have ch: "Type ses1 = [] \<or> Type ses1 = ProtocolRCON K \<or> Type ses1 = ProtocolWebRCON K"
      by (simp add: supported_def ty)
    from False have nt: "Type ses1 \<noteq> ProtocolTELNET K" by (simp add: ty)
    obtain err st2 where cc: "CheckCredentials K env ses1 st1 = (err, st2)"
      by (cases "CheckCredentials K env ses1 st1") auto
    have c2: "calls st2 = calls st @ [first_call K ses1]"
      using CheckCredentials_calls [of K env ses1 st1] cc c1 nt
      by (simp add: first_call_def)
    show ?thesis
    proof (cases err)
      case (Some a)
      with nt ch cc c2 show ?thesis
        unfolding Loop.simps pre ses1_def [symmetric] by simp
    next
      case None
      let ?b = "Fprint (waiting_banner ses1) st2"
      obtain ex st3 where cl: "CommandLoop K env ses1 r1 ?b = (ex, st3)"
        by (cases "CommandLoop K env ses1 r1 ?b") auto
      have "prefix (calls ?b) (calls st3)"
        using CommandLoop_calls_prefix [of ?b K env ses1 r1] cl by simp
      then have p3: "prefix (calls st @ [first_call K ses1]) (calls st3)"
        by (simp add: Fprint_calls c2)
      show ?thesis
      proof (cases ex)
        case ScanEnd
        have "prefix (calls st3) (calls (snd (snd (Loop n K env [] ses1 attempt st3))))"
          by (rule Loop_calls_prefix)
        with p3 have "prefix (calls st @ [first_call K ses1])
            (calls (snd (snd (Loop n K env [] ses1 attempt st3))))"
          by (rule prefix_order.trans)
        with nt ch cc None cl ScanEnd show ?thesis
          unfolding Loop.simps pre ses1_def [symmetric] by simp
      next
        case BreakLoop
        with nt ch cc None cl p3 show ?thesis
          unfolding Loop.simps pre ses1_def [symmetric] by simp
      next
        case (ReturnErr e)
        with nt ch cc None cl p3 show ?thesis
          unfolding Loop.simps pre ses1_def [symmetric] by simp
      qed
    qed
  qed
qed

subsection \<open>The claims about \<^verbatim>\<open>Interactive\<close>\<close>

lemma Interactive_preset:
  "Address ses \<noteq> [] \<Longrightarrow> Password ses \<noteq> [] \<Longrightarrow>
     Interactive n K env r ses st = Loop n K env r ses 0 st"
  by (simp add: Interactive_def)

lemma Loop_step_no_ErrToManyFails:
  assumes "\<And>n. Loop (Suc n) K env r ses a st = Loop n K env r' ses' a' st'"
    and "\<And>n. fst (Loop n K env r' ses' a' st') \<noteq> Returned (Some ErrToManyFails)"
  shows "fst (Loop m K env r ses a st) \<noteq> Returned (Some ErrToManyFails)"
  using assms by (cases m) (simp_all add: Loop.simps(1))

text \<open>The session's type is not given: three entries are read.\<close>

lemma Loop_three_unsupported:
  assumes "Type ses = []"
    and "Fscanln [] r = (e1, r1)" and "Fscanln [] r1 = (e2, r2)" and "Fscanln [] r2 = (e3, r3)"
    and "unsupported K e1" and "unsupported K e2" and "unsupported K e3"
  shows "fst (Loop (Suc (Suc (Suc n))) K env r ses 0 st) = Returned (Some ErrToManyFails)
       \<and> calls (snd (snd (Loop (Suc (Suc (Suc n))) K env r ses 0 st))) = calls st"
  by (simp add: Loop_unsupported_entry [OF assms(1,2,5)] Loop_unsupported_entry [OF assms(1,3,6)]
      Loop_unsupported_entry [OF assms(1,4,7)] Let_def AttemptsLimit_def Fprint_calls)

lemma Loop_two_unsupported_then_supported:
  assumes d: "distinct_protocols K" and t: "Type ses = []"
    and f1: "Fscanln [] r = (e1, r1)" and f2: "Fscanln [] r1 = (e2, r2)"
    and f3: "Fscanln [] r2 = (e3, r3)"
    and u1: "unsupported K e1" and u2: "unsupported K e2" and s3: "supported K e3"
  shows "fst (Loop m K env r ses 0 st) \<noteq> Returned (Some ErrToManyFails)"
    and "prefix (calls st @ [first_call K (ses\<lparr>Type := e3\<rparr>)])
           (calls (snd (snd (Loop (Suc (Suc (Suc n))) K env r ses 0 st))))"
proof -
  let ?p = "Fprint ''Enter protocol type (empty for rcon): ''"
  let ?u = "Fprint (unsupported_message K)"
  have st1: "Loop (Suc k) K env r ses 0 st = Loop k K env r1 ses (Suc 0) (?u (?p st))" for k
    by (simp add: Loop_unsupported_entry [OF t f1 u1] Let_def AttemptsLimit_def)
  have st2: "Loop (Suc k) K env r1 ses (Suc 0) (?u (?p st)) =
      Loop k K env r2 ses 2 (?u (?p (?u (?p st))))" for k
    by (simp add: Loop_unsupported_entry [OF t f2 u2] Let_def AttemptsLimit_def numeral_2_eq_2)
  have tv: "e3 = (if Type ses = [] then fst (Fscanln (Type ses) r2) else Type ses)"
    using t f3 by simp
  have sv: "supported K (if Type ses = [] then fst (Fscanln (Type ses) r2) else Type ses)"
    using s3 tv by simp
  have nf: "fst (Loop k K env r2 ses 2 (?u (?p (?u (?p st))))) \<noteq> Returned (Some ErrToManyFails)"
    for k
    by (rule Loop_supported_no_ErrToManyFails [OF d sv])
  have "fst (Loop k K env r1 ses (Suc 0) (?u (?p st))) \<noteq> Returned (Some ErrToManyFails)" for k
    by (rule Loop_step_no_ErrToManyFails [OF st2 nf])
  then show "fst (Loop m K env r ses 0 st) \<noteq> Returned (Some ErrToManyFails)"
    by (rule Loop_step_no_ErrToManyFails [OF st1])
  have "prefix (calls (?u (?p (?u (?p st)))) @ [first_call K (ses\<lparr>Type := e3\<rparr>)])
      (calls (snd (snd (Loop (Suc n) K env r2 ses 2 (?u (?p (?u (?p st))))))))"
    by (rule Loop_supported_first_call [OF d tv s3])
  then show "prefix (calls st @ [first_call K (ses\<lparr>Type := e3\<rparr>)])
      (calls (snd (snd (Loop (Suc (Suc (Suc n))) K env r ses 0 st))))"
    unfolding st1 st2 by (simp add: Fprint_calls)
qed

text \<open>The session brings an unsupported type: it is the first of the three.\<close>

lemma Loop_preset_unsupported_counts:
  assumes "unsupported K (Type ses)"
    and "Fscanln [] r = (e1, r1)" and "Fscanln [] r1 = (e2, r2)"
    and "unsupported K e1" and "unsupported K e2"
  shows "fst (Loop (Suc (Suc (Suc n))) K env r ses 0 st) = Returned (Some ErrToManyFails)
       \<and> calls (snd (snd (Loop (Suc (Suc (Suc n))) K env r ses 0 st))) = calls st"
proof -
  have t: "Type (ses\<lparr>Type := []\<rparr>) = []" by simp
  show ?thesis
    by (simp add: Loop_unsupported_preset [OF assms(1)] Loop_unsupported_entry [OF t assms(2,4)]
        Loop_unsupported_entry [OF t assms(3,5)] Let_def AttemptsLimit_def Fprint_calls)
qed

lemma Loop_preset_unsupported_then_supported:
  assumes d: "distinct_protocols K" and u0: "unsupported K (Type ses)"
    and f1: "Fscanln [] r = (e1, r1)" and f2: "Fscanln [] r1 = (e2, r2)"
    and u1: "unsupported K e1" and s2: "supported K e2"
  shows "fst (Loop m K env r ses 0 st) \<noteq> Returned (Some ErrToManyFails)"
    and "prefix (calls st @ [first_call K (ses\<lparr>Type := e2\<rparr>)])
           (calls (snd (snd (Loop (Suc (Suc (Suc n))) K env r ses 0 st))))"
proof -
  let ?p = "Fprint ''Enter protocol type (empty for rcon): ''"
  let ?u = "Fprint (unsupported_message K)"
  let ?s = "ses\<lparr>Type := []\<rparr>"
  have t: "Type ?s = []" by simp
  have st1: "Loop (Suc k) K env r ses 0 st = Loop k K env r ?s (Suc 0) (?u st)" for k
    by (simp add: Loop_unsupported_preset [OF u0] Let_def AttemptsLimit_def)
  have st2: "Loop (Suc k) K env r ?s (Suc 0) (?u st) = Loop k K env r1 ?s 2 (?u (?p (?u st)))"
    for k
    by (simp add: Loop_unsupported_entry [OF t f1 u1] Let_def AttemptsLimit_def numeral_2_eq_2)
  have tv: "e2 = (if Type ?s = [] then fst (Fscanln (Type ?s) r1) else Type ?s)"
    using f2 by simp
  have sv: "supported K (if Type ?s = [] then fst (Fscanln (Type ?s) r1) else Type ?s)"
    using s2 f2 by simp
  have nf: "fst (Loop k K env r1 ?s 2 (?u (?p (?u st)))) \<noteq> Returned (Some ErrToManyFails)" for k
    by (rule Loop_supported_no_ErrToManyFails [OF d sv])
  have "fst (Loop k K env r ?s (Suc 0) (?u st)) \<noteq> Returned (Some ErrToManyFails)" for k
    by (rule Loop_step_no_ErrToManyFails [OF st2 nf])
  then show "fst (Loop m K env r ses 0 st) \<noteq> Returned (Some ErrToManyFails)"
    by (rule Loop_step_no_ErrToManyFails [OF st1])
  have "prefix (calls (?u (?p (?u st))) @ [first_call K (?s\<lparr>Type := e2\<rparr>)])
      (calls (snd (snd (Loop (Suc n) K env r1 ?s 2 (?u (?p (?u st)))))))"
    by (rule Loop_supported_first_call [OF d tv s2])
  then show "prefix (calls st @ [first_call K (ses\<lparr>Type := e2\<rparr>)])
      (calls (snd (snd (Loop (Suc (Suc (Suc n))) K env r ses 0 st))))"
    unfolding st1 st2 by (simp add: Fprint_calls)
qed

text \<open>
  C3, as the specification states it, does not hold of the code: the counter of failed
  attempts is advanced on every pass through the \<^verbatim>\<open>default\<close> branch of the \<^verbatim>\<open>switch\<close>, and
  the first pass examines the type the session was created with. A session created with
  the unsupported type \<^verbatim>\<open>ssh\<close> has used one attempt before the first prompt, so
  \<^verbatim>\<open>Interactive\<close> returns \<^verbatim>\<open>ErrToManyFails\<close> after two unsupported entries at the prompt,
  not three; the third line, a supported type, is never read and no client is called.
\<close>

theorem negotiation_preset_type_fails_after_two_entries:
  "unsupported sample_consts ''http'' \<and> unsupported sample_consts ''ftp''
   \<and> supported sample_consts ''web''
   \<and> fst (Interactive (Suc (Suc (Suc 0))) sample_consts (sample_env (''OK'', None) None)
        [''http'', ''ftp'', ''web'', '':q''] (sample_session ''ssh'') sample_io) =
       Returned (Some ErrToManyFails)
   \<and> calls (snd (snd (Interactive (Suc (Suc (Suc 0))) sample_consts
        (sample_env (''OK'', None) None) [''http'', ''ftp'', ''web'', '':q'']
        (sample_session ''ssh'') sample_io))) = []"
proof -
  have "unsupported sample_consts ''http''" "unsupported sample_consts ''ftp''"
    "supported sample_consts ''web''"
    by (simp_all add: unsupported_def supported_def sample_consts_def)
  moreover have "fst (Interactive (Suc (Suc (Suc 0))) sample_consts
      (sample_env (''OK'', None) None) [''http'', ''ftp'', ''web'', '':q'']
      (sample_session ''ssh'') sample_io) = Returned (Some ErrToManyFails)"
    "calls (snd (snd (Interactive (Suc (Suc (Suc 0))) sample_consts
      (sample_env (''OK'', None) None) [''http'', ''ftp'', ''web'', '':q'']
      (sample_session ''ssh'') sample_io))) = []"
    by code_simp+
  ultimately show ?thesis by blast
qed

lemma Interactive_after_prompts:
  assumes "a = (if Address ses = [] then fst (Fscanln [] r) else Address ses)"
    and "ra = (if Address ses = [] then snd (Fscanln [] r) else r)"
    and "p = (if Password ses = [] then fst (Fscanln [] ra) else Password ses)"
    and "rp = (if Password ses = [] then snd (Fscanln [] ra) else ra)"
  shows "\<exists>st'. calls st' = calls st
     \<and> (\<forall>n. Interactive n K env r ses st =
           Loop n K env rp (ses\<lparr>Address := a, Password := p\<rparr>) 0 st')"
proof -
  define st1 where
    "st1 = (if Address ses = [] then Fprint ''Enter remote host and port [ip:port]: '' st else st)"
  define st2 where "st2 = (if Password ses = [] then Fprint ''Enter password: '' st1 else st1)"
  have c: "calls st2 = calls st"
    by (simp add: st2_def st1_def Fprint_calls)
  have e: "ses\<lparr>Address := Address ses, Password := x\<rparr> = ses\<lparr>Password := x\<rparr>"
    "ses\<lparr>Address := x, Password := Password ses\<rparr> = ses\<lparr>Address := x\<rparr>"
    "ses\<lparr>Address := Address ses, Password := Password ses\<rparr> = ses" for x
    by (cases ses, simp)+
  have "Interactive n K env r ses st = Loop n K env rp (ses\<lparr>Address := a, Password := p\<rparr>) 0 st2"
    for n
    unfolding assms
    by (simp add: Interactive_def st1_def st2_def e)
  with c show ?thesis by blast
qed

text \<open>
  C3, amended. The counter counts the unsupported types the loop examines: the type of
  the session, when it is given and unsupported, and then each entry at the prompt (the
  word \<^verbatim>\<open>fmt.Fscanln\<close> stores: the first word of the line that is read; a line
  without a word leaves the type empty, which selects rcon). The third unsupported type
  makes \<^verbatim>\<open>Interactive\<close> return \<^verbatim>\<open>ErrToManyFails\<close> without a call to any client, and no
  smaller number does. So, for every session, with \<open>rp\<close> the input that is left when the
  address \<open>a\<close> and the password \<open>p\<close> have been asked for, if they were missing: when the
  type of the session is not given, three unsupported entries fail, and two unsupported
  entries followed by a supported one do not (\<^verbatim>\<open>Interactive\<close> goes on with the first call
  of that protocol); when its type is given and unsupported, two unsupported entries
  fail, and one unsupported entry followed by a supported one does not.
\<close>

theorem negotiation_counts_unsupported_types:
  assumes "distinct_protocols K"
    and "a = (if Address ses = [] then fst (Fscanln [] r) else Address ses)"
    and "ra = (if Address ses = [] then snd (Fscanln [] r) else r)"
    and "p = (if Password ses = [] then fst (Fscanln [] ra) else Password ses)"
    and "rp = (if Password ses = [] then snd (Fscanln [] ra) else ra)"
    and "Fscanln [] rp = (e1, r1)" and "Fscanln [] r1 = (e2, r2)" and "Fscanln [] r2 = (e3, r3)"
  shows "(Type ses = [] \<and> unsupported K e1 \<and> unsupported K e2 \<and> unsupported K e3 \<longrightarrow>
            fst (Interactive (Suc (Suc (Suc n))) K env r ses st) = Returned (Some ErrToManyFails)
            \<and> calls (snd (snd (Interactive (Suc (Suc (Suc n))) K env r ses st))) = calls st)
       \<and> (Type ses = [] \<and> unsupported K e1 \<and> unsupported K e2 \<and> supported K e3 \<longrightarrow>
            fst (Interactive m K env r ses st) \<noteq> Returned (Some ErrToManyFails)
            \<and> prefix (calls st @ [first_call K (ses\<lparr>Address := a, Password := p, Type := e3\<rparr>)])
                (calls (snd (snd (Interactive (Suc (Suc (Suc n))) K env r ses st)))))
       \<and> (unsupported K (Type ses) \<and> unsupported K e1 \<and> unsupported K e2 \<longrightarrow>
            fst (Interactive (Suc (Suc (Suc n))) K env r ses st) = Returned (Some ErrToManyFails)
            \<and> calls (snd (snd (Interactive (Suc (Suc (Suc n))) K env r ses st))) = calls st)
       \<and> (unsupported K (Type ses) \<and> unsupported K e1 \<and> supported K e2 \<longrightarrow>
            fst (Interactive m K env r ses st) \<noteq> Returned (Some ErrToManyFails)
            \<and> prefix (calls st @ [first_call K (ses\<lparr>Address := a, Password := p, Type := e2\<rparr>)])
                (calls (snd (snd (Interactive (Suc (Suc (Suc n))) K env r ses st)))))"
proof -
  let ?s = "ses\<lparr>Address := a, Password := p\<rparr>"
  obtain st' where c: "calls st' = calls st"
    and i: "\<And>n. Interactive n K env r ses st = Loop n K env rp ?s 0 st'"
    using Interactive_after_prompts [OF assms(2,3,4,5)] by blast
  have t: "Type ?s = Type ses" by simp
  note a = Loop_three_unsupported [OF _ assms(6,7,8), where ses = ?s and K = K and n = n
      and env = env and st = st']
  note b = Loop_two_unsupported_then_supported [OF assms(1) _ assms(6,7,8), where ses = ?s
      and env = env and st = st']
  note c' = Loop_preset_unsupported_counts [OF _ assms(6,7), where ses = ?s and K = K
      and n = n and env = env and st = st']
  note d = Loop_preset_unsupported_then_supported [OF assms(1) _ assms(6,7), where ses = ?s
      and env = env and st = st']
  show ?thesis
    unfolding i
    using a b(1) [of m] b(2) [of n] c' d(1) [of m] d(2) [of n]
    unfolding t c
    by blast
qed

theorem negotiation_counts_unsupported_types_witness:
  "distinct_protocols sample_consts
   \<and> Fscanln [] [''ssh'', '' http '', ''ftp x''] = (''ssh'', ['' http '', ''ftp x''])
   \<and> Fscanln [] ['' http '', ''ftp x''] = (''http'', [''ftp x''])
   \<and> Fscanln [] [''ftp x''] = (''ftp'', [[]])
   \<and> unsupported sample_consts ''ssh'' \<and> unsupported sample_consts ''http''
   \<and> unsupported sample_consts ''ftp'' \<and> supported sample_consts ''web''
   \<and> fst (Interactive (Suc (Suc (Suc 0))) sample_consts (sample_env (''OK'', None) None)
        [''ssh'', '' http '', ''ftp x''] (sample_session []) sample_io) =
       Returned (Some ErrToManyFails)
   \<and> calls (snd (snd (Interactive (Suc (Suc (Suc 0))) sample_consts
        (sample_env (''OK'', None) None) [''ssh'', '' http '', ''ftp x'']
        (sample_session []) sample_io))) = []
   \<and> Fscanln [] [''10.0.0.1:25575'', ''http'', '' web '', '':q''] =
       (''10.0.0.1:25575'', [''http'', '' web '', '':q''])
   \<and> Fscanln [] [''http'', '' web '', '':q''] = (''http'', ['' web '', '':q''])
   \<and> Fscanln [] ['' web '', '':q''] = (''web'', ['':q''])
   \<and> Fscanln [] ['':q''] = ('':q'', [])
   \<and> fst (Interactive (Suc (Suc (Suc 0))) sample_consts (sample_env (''OK'', None) None)
        [''10.0.0.1:25575'', ''http'', '' web '', '':q'']
        \<lparr>Address = [], Password = ''secret'', Type = ''ssh'', Log = []\<rparr> sample_io) \<noteq>
       Returned (Some ErrToManyFails)
   \<and> prefix [WebsocketCheckCredentials ''10.0.0.1:25575'' ''secret'']
        (calls (snd (snd (Interactive (Suc (Suc (Suc 0))) sample_consts
          (sample_env (''OK'', None) None) [''10.0.0.1:25575'', ''http'', '' web '', '':q'']
          \<lparr>Address = [], Password = ''secret'', Type = ''ssh'', Log = []\<rparr> sample_io))))
   \<and> fst (Interactive (Suc (Suc (Suc 0))) sample_consts (sample_env (''OK'', None) None)
        [''10.0.0.1:25575'', ''http'', '' web '', '':q'']
        \<lparr>Address = [], Password = ''secret'', Type = ''ssh'', Log = []\<rparr> sample_io) =
       Returned None"
proof -
  let ?E = "sample_env (''OK'', None) None"
  let ?s = "\<lparr>Address = [], Password = ''secret'', Type = ''ssh'', Log = []\<rparr>"
  have d: "distinct_protocols sample_consts"
    by (simp add: distinct_protocols_def sample_consts_def)
  have f1: "Fscanln [] [''ssh'', '' http '', ''ftp x''] = (''ssh'', ['' http '', ''ftp x''])"
    by code_simp
  have f2: "Fscanln [] ['' http '', ''ftp x''] = (''http'', [''ftp x''])"
    by code_simp
  have f3: "Fscanln [] [''ftp x''] = (''ftp'', [[]])"
    by code_simp
  have g0: "Fscanln [] [''10.0.0.1:25575'', ''http'', '' web '', '':q''] =
      (''10.0.0.1:25575'', [''http'', '' web '', '':q''])"
    by code_simp
  have g1: "Fscanln [] [''http'', '' web '', '':q''] = (''http'', ['' web '', '':q''])"
    by code_simp
  have g2: "Fscanln [] ['' web '', '':q''] = (''web'', ['':q''])"
    by code_simp
  have g3: "Fscanln [] ['':q''] = ('':q'', [])"
    by code_simp
  have u: "unsupported sample_consts ''ssh''" "unsupported sample_consts ''http''"
    "unsupported sample_consts ''ftp''" "supported sample_consts ''web''"
    by (simp_all add: unsupported_def supported_def sample_consts_def)
  have p1: "Address (sample_session []) =
      (if Address (sample_session []) = []
       then fst (Fscanln [] [''ssh'', '' http '', ''ftp x'']) else Address (sample_session []))"
    "[''ssh'', '' http '', ''ftp x''] =
      (if Address (sample_session []) = []
       then snd (Fscanln [] [''ssh'', '' http '', ''ftp x'']) else [''ssh'', '' http '', ''ftp x''])"
    "Password (sample_session []) =
      (if Password (sample_session []) = []
       then fst (Fscanln [] [''ssh'', '' http '', ''ftp x'']) else Password (sample_session []))"
    "[''ssh'', '' http '', ''ftp x''] =
      (if Password (sample_session []) = []
       then snd (Fscanln [] [''ssh'', '' http '', ''ftp x'']) else [''ssh'', '' http '', ''ftp x''])"
    by (simp_all add: sample_session_def)
  have p2: "''10.0.0.1:25575'' =
      (if Address ?s = []
       then fst (Fscanln [] [''10.0.0.1:25575'', ''http'', '' web '', '':q'']) else Address ?s)"
    "[''http'', '' web '', '':q''] =
      (if Address ?s = []
       then snd (Fscanln [] [''10.0.0.1:25575'', ''http'', '' web '', '':q''])
       else [''10.0.0.1:25575'', ''http'', '' web '', '':q''])"
    "''secret'' =
      (if Password ?s = [] then fst (Fscanln [] [''http'', '' web '', '':q'']) else Password ?s)"
    "[''http'', '' web '', '':q''] =
      (if Password ?s = [] then snd (Fscanln [] [''http'', '' web '', '':q''])
       else [''http'', '' web '', '':q''])"
    by (simp_all add: g0)
  have t0: "Type (sample_session []) = []" and t1: "Type ?s = ''ssh''"
    by (simp_all add: sample_session_def)
  have c0: "calls sample_io = []"
    by (simp add: sample_io_def)
  have fc: "first_call sample_consts
      (?s\<lparr>Address := ''10.0.0.1:25575'', Password := ''secret'', Type := ''web''\<rparr>) =
      WebsocketCheckCredentials ''10.0.0.1:25575'' ''secret''"
    by (simp add: first_call_def sample_consts_def)
  have e: "fst (Interactive (Suc (Suc (Suc 0))) sample_consts ?E
      [''10.0.0.1:25575'', ''http'', '' web '', '':q''] ?s sample_io) = Returned None"
    by code_simp
  note th1 = negotiation_counts_unsupported_types [OF d p1 f1 f2 f3,
      where n = 0 and env = ?E and st = sample_io]
  note th2 = negotiation_counts_unsupported_types [OF d p2 g1 g2 g3,
      where n = 0 and m = "Suc (Suc (Suc 0))" and env = ?E and st = sample_io]
  from th1 t0 u have r1: "fst (Interactive (Suc (Suc (Suc 0))) sample_consts ?E
      [''ssh'', '' http '', ''ftp x''] (sample_session []) sample_io) =
       Returned (Some ErrToManyFails)"
    "calls (snd (snd (Interactive (Suc (Suc (Suc 0))) sample_consts ?E
      [''ssh'', '' http '', ''ftp x''] (sample_session []) sample_io))) = calls sample_io"
    by blast+
  from th2 u have r2: "fst (Interactive (Suc (Suc (Suc 0))) sample_consts ?E
      [''10.0.0.1:25575'', ''http'', '' web '', '':q''] ?s sample_io) \<noteq>
       Returned (Some ErrToManyFails)"
    "prefix (calls sample_io @ [first_call sample_consts
        (?s\<lparr>Address := ''10.0.0.1:25575'', Password := ''secret'', Type := ''web''\<rparr>)])
      (calls (snd (snd (Interactive (Suc (Suc (Suc 0))) sample_consts ?E
        [''10.0.0.1:25575'', ''http'', '' web '', '':q''] ?s sample_io))))"
    unfolding t1 by blast+
  from r2(2) have r3: "prefix [WebsocketCheckCredentials ''10.0.0.1:25575'' ''secret'']
      (calls (snd (snd (Interactive (Suc (Suc (Suc 0))) sample_consts ?E
        [''10.0.0.1:25575'', ''http'', '' web '', '':q''] ?s sample_io))))"
    unfolding fc c0 by simp
  from d f1 f2 f3 u r1 [unfolded c0] g0 g1 g2 g3 r2(1) r3 e show ?thesis
    by blast
qed

subsection \<open>The quit sentinel and the end of the input\<close>

text \<open>
  What the scans leave for the scanner: ends of lines of the input. When every line is
  plain, a scan takes the first line and leaves the others as they are.
\<close>

lemma TrimLeft_suffix: "suffix (TrimLeft s) s"
proof (induction s rule: TrimLeft.induct)
  case (1 s)
  show ?case
  proof (cases "leadingSpace s = 0")
    case True
    then show ?thesis by (subst TrimLeft.simps) simp
  next
    case False
    have "suffix (TrimLeft (drop (leadingSpace s) s)) (drop (leadingSpace s) s)"
      using 1 False by simp
    then have "suffix (TrimLeft (drop (leadingSpace s) s)) s"
      using suffix_drop suffix_order.trans by blast
    with False show ?thesis by (subst TrimLeft.simps) simp
  qed
qed

lemma scan_word_suffix: "suffix (snd (scan_word s)) s"
proof (induction s rule: scan_word.induct)
  case (1 s)
  show ?case
  proof (cases "s = [] \<or> leadingSpace s \<noteq> 0")
    case True
    then show ?thesis by (subst scan_word.simps) simp
  next
    case False
    have "suffix (snd (scan_word (drop (rune_width s) s))) (drop (rune_width s) s)"
      using 1 False by simp
    then have "suffix (snd (scan_word (drop (rune_width s) s))) s"
      using suffix_drop suffix_order.trans by blast
    with False show ?thesis
      by (subst scan_word.simps) (simp add: case_prod_beta)
  qed
qed

lemma scanln_line_suffix: "snd (scanln_line l) = Some s \<Longrightarrow> suffix s l"
proof -
  assume a: "snd (scanln_line l) = Some s"
  define l3 where "l3 = TrimLeft (snd (scan_word (TrimLeft l)))"
  have "suffix l3 l"
    unfolding l3_def
    using TrimLeft_suffix scan_word_suffix suffix_order.trans by blast
  moreover have "s = drop (read_width (l3 @ [CHR 0x0A])) l3"
    using a unfolding l3_def
    by (simp add: scanln_line_def Let_def case_prod_beta split: if_splits)
  ultimately show ?thesis
    using suffix_drop suffix_order.trans by blast
qed

lemma suffixes_closed:
  assumes "set r \<subseteq> {s. \<exists>l\<in>set r0. suffix s l}"
  shows "set (snd (Fscanln v r)) \<subseteq> {s. \<exists>l\<in>set r0. suffix s l}"
proof (cases r)
  case Nil
  then show ?thesis by (simp add: Fscanln_Nil)
next
  case (Cons l r')
  show ?thesis
  proof (cases "snd (scanln_line l)")
    case None
    then have "snd (Fscanln v r) = r'"
      using Cons by (simp add: Fscanln_def case_prod_beta)
    with assms Cons show ?thesis by auto
  next
    case (Some s)
    then have f: "snd (Fscanln v r) = s # r'"
      using Cons by (simp add: Fscanln_def case_prod_beta)
    obtain l0 where l0: "l0 \<in> set r0" "suffix l l0"
      using assms Cons by auto
    have "suffix s l0"
      using scanln_line_suffix [OF Some] l0(2) suffix_order.trans by blast
    with l0(1) assms Cons show ?thesis
      unfolding f by auto
  qed
qed

lemma plain_lines_closed:
  assumes "list_all plain r0" and "set r \<subseteq> set r0"
  shows "set (snd (Fscanln v r)) \<subseteq> set r0"
proof -
  have "list_all plain r" using assms by (auto simp: list_all_iff)
  then have "snd (Fscanln v r) = tl r" by (rule Fscanln_plain_rest)
  moreover have "set (tl r) \<subseteq> set r" by (cases r) auto
  ultimately show ?thesis using assms(2) by auto
qed

lemma sent_commands_snoc:
  "sent_commands (cs @ [c]) =
     sent_commands cs @ (case client_command c of None \<Rightarrow> [] | Some x \<Rightarrow> [x])"
  by (simp add: sent_commands_def map_filter_def split: option.split)

lemma CommandLoop_BreakLoop:
  "fst (CommandLoop K env ses r st) = BreakLoop \<Longrightarrow> CommandQuit \<in> set r"
proof (induction r arbitrary: st)
  case Nil
  then show ?case by simp
next
  case (Cons command r)
  show ?case
  proof (cases "command = CommandQuit")
    case True
    then show ?thesis by simp
  next
    case False
    obtain e st1 where ex: "Execute K env ses command st = (e, st1)"
      by (cases "Execute K env ses command st") auto
    have "\<exists>st'. fst (CommandLoop K env ses r st') = BreakLoop"
      using Cons.prems False ex
      by (cases "command = []"; cases e) auto
    then show ?thesis using Cons.IH by auto
  qed
qed

lemma Loop_sent:
  assumes closed: "\<And>v r. set r \<subseteq> A \<Longrightarrow> set (snd (Fscanln v r)) \<subseteq> A"
  shows "set r \<subseteq> A \<Longrightarrow>
     set (sent_commands (calls (snd (snd (Loop n K env r ses attempt st))))) \<subseteq>
       set (sent_commands (calls st)) \<union> (A - {[], CommandQuit})"
proof (induction n arbitrary: r ses attempt st)
  case 0
  show ?case by (simp add: Loop.simps)
next
  case (Suc n)
  define t where "t = (if Type ses = [] then fst (Fscanln (Type ses) r) else Type ses)"
  define ses1 where "ses1 = ses\<lparr>Type := t\<rparr>"
  define r1 where "r1 = (if Type ses = [] then snd (Fscanln (Type ses) r) else r)"
  define st1 where "st1 = (if Type ses = [] then Fprint ''Enter protocol type (empty for rcon): '' st else st)"
  have pre: "(if Type ses = [] then
           (ses\<lparr>Type := fst (Fscanln (Type ses) r)\<rparr>, snd (Fscanln (Type ses) r),
            Fprint ''Enter protocol type (empty for rcon): '' st)
         else (ses, r, st)) = (ses1, r1, st1)"
    unfolding Loop_prompt ses1_def r1_def st1_def t_def ..
  have c1: "calls st1 = calls st" by (simp add: st1_def Fprint_calls)
  have sub: "set r1 \<subseteq> A" using closed [OF Suc.prems] Suc.prems by (auto simp: r1_def)
  consider (telnet) "Type ses1 = ProtocolTELNET K"
    | (check) "Type ses1 \<noteq> ProtocolTELNET K"
        "Type ses1 = [] \<or> Type ses1 = ProtocolRCON K \<or> Type ses1 = ProtocolWebRCON K"
    | (other) "Type ses1 \<noteq> ProtocolTELNET K"
        "\<not> (Type ses1 = [] \<or> Type ses1 = ProtocolRCON K \<or> Type ses1 = ProtocolWebRCON K)"
    by blast
  then show ?case
  proof cases
    case telnet
    then show ?thesis
      unfolding Loop.simps pre
      by (simp add: invoke_def c1 sent_commands_snoc split: prod.split)
  next
    case check
    obtain err st2 where cc: "CheckCredentials K env ses1 st1 = (err, st2)"
      by (cases "CheckCredentials K env ses1 st1") auto
    have s2: "sent_commands (calls st2) = sent_commands (calls st)"
      using CheckCredentials_calls [of K env ses1 st1] cc c1
      by (simp add: sent_commands_snoc)
    show ?thesis
    proof (cases err)
      case (Some a)
      with check cc s2 show ?thesis
        unfolding Loop.simps pre by simp
    next
      case None
      let ?b = "Fprint (waiting_banner ses1) st2"
      obtain ex st3 where cl: "CommandLoop K env ses1 r1 ?b = (ex, st3)"
        by (cases "CommandLoop K env ses1 r1 ?b") auto
      have "set (sent_commands (calls st3)) \<subseteq>
          set (sent_commands (calls ?b)) \<union> (set r1 - {[], CommandQuit})"
        using CommandLoop_sent [of K env ses1 r1 ?b] cl by simp
      with sub s2 have s3: "set (sent_commands (calls st3)) \<subseteq>
          set (sent_commands (calls st)) \<union> (A - {[], CommandQuit})"
        by (auto simp: Fprint_calls)
      show ?thesis
      proof (cases ex)
        case ScanEnd
        have "set (sent_commands (calls (snd (snd (Loop n K env [] ses1 attempt st3))))) \<subseteq>
            set (sent_commands (calls st3)) \<union> (A - {[], CommandQuit})"
          by (rule Suc.IH) simp
        with s3 have "set (sent_commands (calls (snd (snd (Loop n K env [] ses1 attempt st3))))) \<subseteq>
            set (sent_commands (calls st)) \<union> (A - {[], CommandQuit})"
          by auto
        with check cc None cl ScanEnd show ?thesis
          unfolding Loop.simps pre by simp
      next
        case BreakLoop
        with check cc None cl s3 show ?thesis
          unfolding Loop.simps pre by simp
      next
        case (ReturnErr e)
        with check cc None cl s3 show ?thesis
          unfolding Loop.simps pre by simp
      qed
    qed
  next
    case other
    let ?m = "Fprint (unsupported_message K) st1"
    have "set (sent_commands (calls (snd (snd (Loop n K env r1 (ses1\<lparr>Type := []\<rparr>)
        (attempt + 1) ?m))))) \<subseteq> set (sent_commands (calls ?m)) \<union> (A - {[], CommandQuit})"
      by (rule Suc.IH [OF sub])
    then have "set (sent_commands (calls (snd (snd (Loop n K env r1 (ses1\<lparr>Type := []\<rparr>)
        (attempt + 1) ?m))))) \<subseteq> set (sent_commands (calls st)) \<union> (A - {[], CommandQuit})"
      by (auto simp: Fprint_calls c1)
    with other show ?thesis
      unfolding Loop.simps pre by (simp add: Let_def Fprint_calls c1)
  qed
qed

lemma Interactive_prompts:
  "\<exists>ses' r' st' a p. Interactive n K env r ses st = Loop n K env r' ses' 0 st'
     \<and> Type ses' = Type ses \<and> calls st' = calls st
     \<and> (r' = r \<or> r' = snd (Fscanln a r) \<or> r' = snd (Fscanln p (snd (Fscanln a r))))"
proof -
  define ses1 where "ses1 = (if Address ses = [] then ses\<lparr>Address := fst (Fscanln (Address ses) r)\<rparr> else ses)"
  define r1 where "r1 = (if Address ses = [] then snd (Fscanln (Address ses) r) else r)"
  define st1 where "st1 = (if Address ses = [] then Fprint ''Enter remote host and port [ip:port]: '' st else st)"
  define ses2 where "ses2 = (if Password ses1 = [] then ses1\<lparr>Password := fst (Fscanln (Password ses1) r1)\<rparr> else ses1)"
  define r2 where "r2 = (if Password ses1 = [] then snd (Fscanln (Password ses1) r1) else r1)"
  define st2 where "st2 = (if Password ses1 = [] then Fprint ''Enter password: '' st1 else st1)"
  have "Interactive n K env r ses st = Loop n K env r2 ses2 0 st2"
    by (simp add: Interactive_def ses1_def r1_def st1_def ses2_def r2_def st2_def)
  moreover have "Type ses2 = Type ses"
    by (simp add: ses2_def ses1_def)
  moreover have "calls st2 = calls st"
    by (simp add: st2_def st1_def Fprint_calls)
  moreover have "r2 = r \<or> r2 = snd (Fscanln (Address ses) r)
      \<or> r2 = snd (Fscanln (Password ses1) r)
      \<or> r2 = snd (Fscanln (Password ses1) (snd (Fscanln (Address ses) r)))"
    by (simp add: r2_def r1_def)
  ultimately show ?thesis by blast
qed

lemma Interactive_prompts_closed:
  assumes closed: "\<And>v r. set r \<subseteq> A \<Longrightarrow> set (snd (Fscanln v r)) \<subseteq> A" and "set r \<subseteq> A"
  shows "\<exists>ses' r' st'. Interactive n K env r ses st = Loop n K env r' ses' 0 st'
     \<and> Type ses' = Type ses \<and> calls st' = calls st \<and> set r' \<subseteq> A"
proof -
  obtain ses' r' st' a p where i: "Interactive n K env r ses st = Loop n K env r' ses' 0 st'"
    "Type ses' = Type ses" "calls st' = calls st"
    and c: "r' = r \<or> r' = snd (Fscanln a r) \<or> r' = snd (Fscanln p (snd (Fscanln a r)))"
    using Interactive_prompts by blast
  have "set (snd (Fscanln a r)) \<subseteq> A" by (rule closed [OF assms(2)])
  moreover from this have "set (snd (Fscanln p (snd (Fscanln a r)))) \<subseteq> A" by (rule closed)
  ultimately have "set r' \<subseteq> A" using c assms(2) by auto
  with i show ?thesis by blast
qed

lemma Interactive_sent:
  assumes closed: "\<And>v r. set r \<subseteq> A \<Longrightarrow> set (snd (Fscanln v r)) \<subseteq> A" and "set r \<subseteq> A"
  shows "set (sent_commands (calls (snd (snd (Interactive n K env r ses st))))) \<subseteq>
     set (sent_commands (calls st)) \<union> (A - {[], CommandQuit})"
proof -
  obtain ses' r' st' where i: "Interactive n K env r ses st = Loop n K env r' ses' 0 st'"
    and s: "set r' \<subseteq> A" and c: "calls st' = calls st"
    using Interactive_prompts_closed [OF assms] by blast
  have "set (sent_commands (calls (snd (snd (Loop n K env r' ses' 0 st'))))) \<subseteq>
      set (sent_commands (calls st')) \<union> (A - {[], CommandQuit})"
    by (rule Loop_sent [OF closed s])
  then show ?thesis
    unfolding i c .
qed

lemma Loop_BreakLoop_returns:
  assumes "Type ses \<noteq> []" and "Type ses \<noteq> ProtocolTELNET K" and "supported K (Type ses)"
    and "fst (CheckCredentials K env ses st) = None"
    and "fst (CommandLoop K env ses r
           (Fprint (waiting_banner ses) (snd (CheckCredentials K env ses st)))) = BreakLoop"
  shows "fst (Loop (Suc n) K env r ses attempt st) = Returned None"
proof -
  obtain st2 where cc: "CheckCredentials K env ses st = (None, st2)"
    using assms(4) by (cases "CheckCredentials K env ses st") auto
  obtain st3 where cl: "CommandLoop K env ses r (Fprint (waiting_banner ses) st2) = (BreakLoop, st3)"
    using assms(5) cc by (cases "CommandLoop K env ses r (Fprint (waiting_banner ses) st2)") auto
  show ?thesis
    using assms(1,2,3) cc cl by (simp add: Loop.simps supported_def)
qed

text \<open>
  C9. When the command loop has read the lines \<open>pre\<close> without leaving, the line \<^verbatim>\<open>:q\<close>
  makes it leave by \<^verbatim>\<open>break Loop\<close> in the state it had reached: nothing is executed for
  \<^verbatim>\<open>:q\<close>, and the lines after it are not read. \<^verbatim>\<open>Interactive\<close> then returns \<^verbatim>\<open>nil\<close>
  (stated for a session with address, password and a supported type other than telnet,
  whose credentials are accepted). And for every session, input and collaborator, no
  command that \<^verbatim>\<open>Interactive\<close> hands to a protocol client is empty or \<^verbatim>\<open>:q\<close>: each such
  command is the end of a line of the input (a whole line, or what a prompt has left of
  the line it was answered with), and a line of the input when every line is plain.
\<close>

theorem quit_ends_command_loop:
  "(fst (CommandLoop K env ses pre st) = ScanEnd \<longrightarrow>
      CommandLoop K env ses (pre @ CommandQuit # r) st =
        (BreakLoop, snd (CommandLoop K env ses pre st)))
   \<and> (Address ses \<noteq> [] \<and> Password ses \<noteq> [] \<and> Type ses \<noteq> []
        \<and> Type ses \<noteq> ProtocolTELNET K \<and> supported K (Type ses)
        \<and> fst (CheckCredentials K env ses st) = None
        \<and> fst (CommandLoop K env ses pre
             (Fprint (waiting_banner ses) (snd (CheckCredentials K env ses st)))) = ScanEnd \<longrightarrow>
      fst (Interactive (Suc n) K env (pre @ CommandQuit # r) ses st) = Returned None)
   \<and> set (sent_commands (calls (snd (snd (Interactive m K env r' ses st))))) \<subseteq>
       set (sent_commands (calls st)) \<union> ({s. \<exists>l\<in>set r'. suffix s l} - {[], CommandQuit})
   \<and> (list_all plain r' \<longrightarrow>
        set (sent_commands (calls (snd (snd (Interactive m K env r' ses st))))) \<subseteq>
          set (sent_commands (calls st)) \<union> (set r' - {[], CommandQuit}))"
proof -
  have q: "CommandLoop K env ses (pre @ CommandQuit # r) st' =
      (BreakLoop, snd (CommandLoop K env ses pre st'))"
    if "fst (CommandLoop K env ses pre st') = ScanEnd" for st'
    using that
    by (cases "CommandLoop K env ses pre st'") (simp add: CommandLoop_append CommandQuit_def)
  have "fst (Interactive (Suc n) K env (pre @ CommandQuit # r) ses st) = Returned None"
    if a: "Address ses \<noteq> []" "Password ses \<noteq> []" and t: "Type ses \<noteq> []"
      "Type ses \<noteq> ProtocolTELNET K" "supported K (Type ses)"
      and c: "fst (CheckCredentials K env ses st) = None"
      and l: "fst (CommandLoop K env ses pre
             (Fprint (waiting_banner ses) (snd (CheckCredentials K env ses st)))) = ScanEnd"
  proof -
    have "fst (CommandLoop K env ses (pre @ CommandQuit # r)
        (Fprint (waiting_banner ses) (snd (CheckCredentials K env ses st)))) = BreakLoop"
      using q [OF l] by simp
    then have "fst (Loop (Suc n) K env (pre @ CommandQuit # r) ses 0 st) = Returned None"
      by (rule Loop_BreakLoop_returns [OF t c])
    then show ?thesis by (simp add: Interactive_preset [OF a])
  qed
  moreover have "set (sent_commands (calls (snd (snd (Interactive m K env r' ses st))))) \<subseteq>
      set (sent_commands (calls st)) \<union> ({s. \<exists>l\<in>set r'. suffix s l} - {[], CommandQuit})"
    by (rule Interactive_sent [OF suffixes_closed]) auto
  moreover have "set (sent_commands (calls (snd (snd (Interactive m K env r' ses st))))) \<subseteq>
      set (sent_commands (calls st)) \<union> (set r' - {[], CommandQuit})"
    if "list_all plain r'"
    by (rule Interactive_sent [OF plain_lines_closed [OF that]]) simp_all
  ultimately show ?thesis
    using q [of st] by blast
qed

theorem quit_ends_command_loop_witness:
  "fst (CommandLoop sample_consts (sample_env (''OK'', None) None) (sample_session ''rcon'')
      [''status'', []] sample_io) = ScanEnd
   \<and> fst (CommandLoop sample_consts (sample_env (''OK'', None) None) (sample_session ''rcon'')
      ([''status'', []] @ CommandQuit # [''players'']) sample_io) = BreakLoop
   \<and> fst (Interactive (Suc 0) sample_consts (sample_env (''OK'', None) None)
      ([''status'', []] @ CommandQuit # [''players'']) (sample_session ''rcon'') sample_io) =
       Returned None
   \<and> list_all plain ([''status'', []] @ CommandQuit # [''players''])
   \<and> sent_commands (calls (snd (snd (Interactive (Suc 0) sample_consts
      (sample_env (''OK'', None) None) ([''status'', []] @ CommandQuit # [''players''])
      (sample_session ''rcon'') sample_io)))) = [''status'']
   \<and> fst (Interactive (Suc 0) sample_consts (sample_env (''OK'', None) None)
      [''127.0.0.1:16260'', ''secret'', [], '':q'']
      \<lparr>Address = [], Password = [], Type = [], Log = []\<rparr> sample_io) = Returned None
   \<and> sent_commands (calls (snd (snd (Interactive (Suc 0) sample_consts
      (sample_env (''OK'', None) None) [''127.0.0.1:16260'', ''secret'', [], '':q'']
      \<lparr>Address = [], Password = [], Type = [], Log = []\<rparr> sample_io)))) = []
   \<and> sent_commands (calls (snd (snd (Interactive (Suc 0) sample_consts
      (sample_env (''OK'', None) None) [''rcon say hi'', '':q''] (sample_session [])
      sample_io)))) = [''ay hi'']"
proof -
  let ?E = "sample_env (''OK'', None) None"
  have h1: "fst (CommandLoop sample_consts ?E (sample_session ''rcon'')
      [''status'', []] sample_io) = ScanEnd"
    by code_simp
  have h2: "Address (sample_session ''rcon'') \<noteq> [] \<and> Password (sample_session ''rcon'') \<noteq> []
      \<and> Type (sample_session ''rcon'') \<noteq> []
      \<and> Type (sample_session ''rcon'') \<noteq> ProtocolTELNET sample_consts
      \<and> supported sample_consts (Type (sample_session ''rcon''))"
    by (simp add: sample_session_def sample_consts_def supported_def)
  have h3: "fst (CheckCredentials sample_consts ?E (sample_session ''rcon'') sample_io) = None"
    by code_simp
  have h4: "fst (CommandLoop sample_consts ?E (sample_session ''rcon'') [''status'', []]
      (Fprint (waiting_banner (sample_session ''rcon''))
        (snd (CheckCredentials sample_consts ?E (sample_session ''rcon'') sample_io)))) = ScanEnd"
    by code_simp
  have h5: "list_all plain ([''status'', []] @ CommandQuit # [''players''])"
    by code_simp
  have e: "sent_commands (calls (snd (snd (Interactive (Suc 0) sample_consts ?E
      ([''status'', []] @ CommandQuit # [''players'']) (sample_session ''rcon'') sample_io)))) =
        [''status'']"
    "fst (Interactive (Suc 0) sample_consts ?E [''127.0.0.1:16260'', ''secret'', [], '':q'']
      \<lparr>Address = [], Password = [], Type = [], Log = []\<rparr> sample_io) = Returned None"
    "sent_commands (calls (snd (snd (Interactive (Suc 0) sample_consts ?E
      [''127.0.0.1:16260'', ''secret'', [], '':q'']
      \<lparr>Address = [], Password = [], Type = [], Log = []\<rparr> sample_io)))) = []"
    "sent_commands (calls (snd (snd (Interactive (Suc 0) sample_consts ?E
      [''rcon say hi'', '':q''] (sample_session []) sample_io)))) = [''ay hi'']"
    by code_simp+
  note th = quit_ends_command_loop [of sample_consts ?E "sample_session ''rcon''"
      "[''status'', []]" _ "[''players'']" 0]
  from th [of sample_io] h1
  have c1: "fst (CommandLoop sample_consts ?E (sample_session ''rcon'')
      ([''status'', []] @ CommandQuit # [''players'']) sample_io) = BreakLoop"
    by simp
  from th [of sample_io] h2 h3 h4
  have c2: "fst (Interactive (Suc 0) sample_consts ?E
      ([''status'', []] @ CommandQuit # [''players'']) (sample_session ''rcon'') sample_io) =
       Returned None"
    by blast
  from h1 c1 c2 h5 e show ?thesis by blast
qed

subsection \<open>The end of the input\<close>

lemma Loop_never_nil:
  assumes d: "distinct_protocols K"
  shows "Type ses \<noteq> ProtocolTELNET K \<Longrightarrow> list_all plain r \<Longrightarrow> ProtocolTELNET K \<notin> set r
           \<Longrightarrow> CommandQuit \<notin> set r
           \<Longrightarrow> fst (Loop n K env r ses attempt st) \<noteq> Returned None"
proof (induction n arbitrary: r ses attempt st)
  case 0
  show ?case by (simp add: Loop.simps)
next
  case (Suc n)
  define t where "t = (if Type ses = [] then fst (Fscanln (Type ses) r) else Type ses)"
  define ses1 where "ses1 = ses\<lparr>Type := t\<rparr>"
  define r1 where "r1 = (if Type ses = [] then snd (Fscanln (Type ses) r) else r)"
  define st1 where "st1 = (if Type ses = [] then Fprint ''Enter protocol type (empty for rcon): '' st else st)"
  have pre: "(if Type ses = [] then
           (ses\<lparr>Type := fst (Fscanln (Type ses) r)\<rparr>, snd (Fscanln (Type ses) r),
            Fprint ''Enter protocol type (empty for rcon): '' st)
         else (ses, r, st)) = (ses1, r1, st1)"
    unfolding Loop_prompt ses1_def r1_def st1_def t_def ..
  have sub: "set r1 \<subseteq> set r"
    using plain_lines_closed [OF Suc.prems(2) subset_refl] by (auto simp: r1_def)
  have p1: "list_all plain r1" using sub Suc.prems(2) by (auto simp: list_all_iff)
  have e: "[] \<noteq> ProtocolTELNET K" using d by (auto simp: distinct_protocols_def)
  have nt: "Type ses1 \<noteq> ProtocolTELNET K"
  proof (cases "Type ses = []")
    case True
    then have "t = [] \<or> t \<in> set r"
      using Fscanln_plain_word [OF Suc.prems(2), of "[]"] by (simp add: t_def)
    with e Suc.prems(3) show ?thesis by (auto simp: ses1_def)
  next
    case False
    with Suc.prems(1) show ?thesis by (simp add: ses1_def t_def)
  qed
  have q1: "CommandQuit \<notin> set r1" and t1: "ProtocolTELNET K \<notin> set r1"
    using sub Suc.prems(3,4) by auto
  show ?case
  proof (cases "Type ses1 = [] \<or> Type ses1 = ProtocolRCON K \<or> Type ses1 = ProtocolWebRCON K")
    case True
    obtain err st2 where cc: "CheckCredentials K env ses1 st1 = (err, st2)"
      by (cases "CheckCredentials K env ses1 st1") auto
    show ?thesis
    proof (cases err)
      case (Some a)
      with nt True cc show ?thesis
        unfolding Loop.simps pre by simp
    next
      case None
      let ?b = "Fprint (waiting_banner ses1) st2"
      obtain ex st3 where cl: "CommandLoop K env ses1 r1 ?b = (ex, st3)"
        by (cases "CommandLoop K env ses1 r1 ?b") auto
      have nb: "ex \<noteq> BreakLoop"
        using CommandLoop_BreakLoop [of K env ses1 r1 ?b] cl q1 by auto
      show ?thesis
      proof (cases ex)
        case ScanEnd
        have "fst (Loop n K env [] ses1 attempt st3) \<noteq> Returned None"
          by (rule Suc.IH [OF nt]) simp_all
        with nt True cc None cl ScanEnd show ?thesis
          unfolding Loop.simps pre by simp
      next
        case BreakLoop
        with nb show ?thesis by simp
      next
        case (ReturnErr e)
        with nt True cc None cl show ?thesis
          unfolding Loop.simps pre by simp
      qed
    qed
  next
    case False
    let ?m = "Fprint (unsupported_message K) st1"
    have "fst (Loop n K env r1 (ses1\<lparr>Type := []\<rparr>) (attempt + 1) ?m) \<noteq> Returned None"
      using e t1 q1 p1 by (intro Suc.IH) simp_all
    with nt False show ?thesis
      unfolding Loop.simps pre by (simp add: Let_def)
  qed
qed

lemma CheckCredentials_succeeds:
  assumes "\<forall>a p w. fst (rcon_CheckCredentials env a p w) = None"
    and "\<forall>a p w. fst (websocket_CheckCredentials env a p w) = None"
  shows "fst (CheckCredentials K env ses st) = None"
  using assms by (simp add: CheckCredentials_def case_prod_beta invoke_fst)

lemma Loop_EOF_out_of_fuel:
  assumes "\<forall>a p w. fst (rcon_CheckCredentials env a p w) = None"
    and "\<forall>a p w. fst (websocket_CheckCredentials env a p w) = None"
    and "Type ses \<noteq> ProtocolTELNET K" and "supported K (Type ses)"
  shows "fst (Loop n K env [] ses attempt st) = OutOfFuel"
proof (induction n arbitrary: st)
  case 0
  show ?case by (simp add: Loop.simps)
next
  case (Suc n)
  have eq: "ses\<lparr>Type := Type ses\<rparr> = ses" by (cases ses) simp
  define st1 where "st1 = (if Type ses = [] then Fprint ''Enter protocol type (empty for rcon): '' st else st)"
  have pre: "(if Type ses = [] then
           (ses\<lparr>Type := fst (Fscanln (Type ses) [])\<rparr>, snd (Fscanln (Type ses) []),
            Fprint ''Enter protocol type (empty for rcon): '' st)
         else (ses, [], st)) = (ses, [], st1)"
    using eq by (simp add: Fscanln_Nil st1_def)
  have ch: "Type ses = [] \<or> Type ses = ProtocolRCON K \<or> Type ses = ProtocolWebRCON K"
    using assms(3,4) by (simp add: supported_def)
  obtain st2 where cc: "CheckCredentials K env ses st1 = (None, st2)"
    using CheckCredentials_succeeds [OF assms(1,2), of K ses st1]
    by (cases "CheckCredentials K env ses st1") auto
  have "fst (Loop n K env [] ses attempt (Fprint (waiting_banner ses) st2)) = OutOfFuel"
    by (rule Suc)
  with assms(3) ch cc show ?case
    unfolding Loop.simps pre by simp
qed

lemma Execute_succeeds:
  assumes "\<forall>a p c w. snd (fst (rcon_Execute env a p c w)) = None"
    and "\<forall>a p c w. snd (fst (telnet_Execute env a p c w)) = None"
    and "\<forall>a p c w. snd (fst (websocket_Execute env a p c w)) = None"
    and "\<forall>l a c r w. fst (logger_Write env l a c r w) = None"
    and "command \<noteq> []"
  shows "fst (Execute K env ses command st) = None"
proof -
  obtain result err st1 where dp: "dispatch K env ses command st = ((result, err), st1)"
    by (cases "dispatch K env ses command st") auto
  have "snd (fst (dispatch K env ses command st)) = None"
    using assms(1,2,3) by (simp add: dispatch_fst)
  with dp have err: "err = None" by simp
  have lw: "\<exists>st3. invoke (LoggerWrite l a cm x) (logger_Write env l a cm x) s = (None, st3)"
    for l a cm x s
  proof -
    have "fst (logger_Write env l a cm x (world s)) = None"
      using assms(4) by blast
    then show ?thesis
      by (cases "logger_Write env l a cm x (world s)") (simp add: invoke_def)
  qed
  show ?thesis
  proof (cases "result = []")
    case True
    obtain st3 where "invoke (LoggerWrite (Log ses) (Address ses) command [])
        (logger_Write env (Log ses) (Address ses) command []) st1 = (None, st3)"
      using lw by blast
    with assms(5) dp err True show ?thesis
      by (simp add: Execute_def)
  next
    case False
    obtain st3 where "invoke (LoggerWrite (Log ses) (Address ses) command (TrimSpace result))
        (logger_Write env (Log ses) (Address ses) command (TrimSpace result))
        (Fprintln (TrimSpace result) st1) = (None, st3)"
      using lw by blast
    with assms(5) dp err False show ?thesis
      by (simp add: Execute_def)
  qed
qed

lemma CommandLoop_all_succeed:
  assumes "\<forall>a p c w. snd (fst (rcon_Execute env a p c w)) = None"
    and "\<forall>a p c w. snd (fst (telnet_Execute env a p c w)) = None"
    and "\<forall>a p c w. snd (fst (websocket_Execute env a p c w)) = None"
    and "\<forall>l a c r w. fst (logger_Write env l a c r w) = None"
  shows "CommandQuit \<notin> set r \<Longrightarrow> fst (CommandLoop K env ses r st) = ScanEnd"
proof (induction r arbitrary: st)
  case Nil
  show ?case by simp
next
  case (Cons command r)
  show ?case
  proof (cases "command = []")
    case True
    with Cons show ?thesis by simp
  next
    case False
    obtain e st1 where ex: "Execute K env ses command st = (e, st1)"
      by (cases "Execute K env ses command st") auto
    have "e = None"
      using Execute_succeeds [OF assms False, of K ses st] ex by simp
    moreover have "command \<noteq> CommandQuit" "CommandQuit \<notin> set r"
      using Cons.prems by auto
    ultimately show ?thesis
      using False ex Cons.IH by simp
  qed
qed

text \<open>
  C2 does not hold of the code. When \<^verbatim>\<open>scanner.Scan()\<close> returns false at the end of the
  input, control leaves the \<^verbatim>\<open>switch\<close> and the outer \<^verbatim>\<open>for\<close> starts again: only
  \<^verbatim>\<open>break Loop\<close>, which needs the scanner to read \<^verbatim>\<open>:q\<close>, reaches the final \<^verbatim>\<open>return nil\<close>.
  So for an input of plain lines without \<^verbatim>\<open>:q\<close> (and without the telnet type, whose routine
  is not part of the executor) \<^verbatim>\<open>Interactive\<close> never returns \<^verbatim>\<open>nil\<close>, whatever the
  collaborators do. When the session has a supported type and the collaborators succeed,
  it never returns at all: for every amount of fuel the loop is still running, checking
  the credentials again in each iteration. (The lines are taken plain because a prompt
  that is answered with several words leaves the end of its line to the scanner, which
  may then read \<^verbatim>\<open>:q\<close> where no line of the input is \<^verbatim>\<open>:q\<close>.)
\<close>

theorem Interactive_without_quit_never_returns_nil:
  assumes "distinct_protocols K" and "Type ses \<noteq> ProtocolTELNET K"
    and "list_all plain r" and "ProtocolTELNET K \<notin> set r" and "CommandQuit \<notin> set r"
  shows "fst (Interactive n K env r ses st) \<noteq> Returned None
       \<and> ((\<forall>a p w. fst (rcon_CheckCredentials env a p w) = None)
           \<and> (\<forall>a p w. fst (websocket_CheckCredentials env a p w) = None)
           \<and> (\<forall>a p c w. snd (fst (rcon_Execute env a p c w)) = None)
           \<and> (\<forall>a p c w. snd (fst (telnet_Execute env a p c w)) = None)
           \<and> (\<forall>a p c w. snd (fst (websocket_Execute env a p c w)) = None)
           \<and> (\<forall>l a c x w. fst (logger_Write env l a c x w) = None)
           \<and> Type ses \<noteq> [] \<and> supported K (Type ses) \<longrightarrow>
          fst (Interactive n K env r ses st) = OutOfFuel)"
proof -
  obtain ses' r' st' where i: "Interactive n K env r ses st = Loop n K env r' ses' 0 st'"
    and ty: "Type ses' = Type ses" and s: "set r' \<subseteq> set r"
    using Interactive_prompts_closed [OF plain_lines_closed [OF assms(3)] subset_refl]
    by blast
  have pl: "list_all plain r'" using s assms(3) by (auto simp: list_all_iff)
  have nq: "CommandQuit \<notin> set r'" and ntl: "ProtocolTELNET K \<notin> set r'"
    using s assms(4,5) by auto
  have nt: "Type ses' \<noteq> ProtocolTELNET K" using assms(2) ty by simp
  have one: "fst (Loop n K env r' ses' 0 st') \<noteq> Returned None"
    by (rule Loop_never_nil [OF assms(1) nt pl ntl nq])
  have two: "fst (Loop n K env r' ses' 0 st') = OutOfFuel"
    if c1: "\<forall>a p w. fst (rcon_CheckCredentials env a p w) = None"
      and c2: "\<forall>a p w. fst (websocket_CheckCredentials env a p w) = None"
      and x1: "\<forall>a p c w. snd (fst (rcon_Execute env a p c w)) = None"
      and x2: "\<forall>a p c w. snd (fst (telnet_Execute env a p c w)) = None"
      and x3: "\<forall>a p c w. snd (fst (websocket_Execute env a p c w)) = None"
      and lg: "\<forall>l a c x w. fst (logger_Write env l a c x w) = None"
      and ne: "Type ses \<noteq> []" and sup: "supported K (Type ses)"
  proof (cases n)
    case 0
    then show ?thesis by (simp add: Loop.simps)
  next
    case (Suc k)
    have ch: "Type ses' = [] \<or> Type ses' = ProtocolRCON K \<or> Type ses' = ProtocolWebRCON K"
      using sup assms(2) ty by (simp add: supported_def)
    obtain st2 where cc: "CheckCredentials K env ses' st' = (None, st2)"
      using CheckCredentials_succeeds [OF c1 c2, of K ses' st']
      by (cases "CheckCredentials K env ses' st'") auto
    obtain st3 where cl: "CommandLoop K env ses' r' (Fprint (waiting_banner ses') st2) =
        (ScanEnd, st3)"
      using CommandLoop_all_succeed [OF x1 x2 x3 lg nq, of K ses' "Fprint (waiting_banner ses') st2"]
      by (cases "CommandLoop K env ses' r' (Fprint (waiting_banner ses') st2)") auto
    have "fst (Loop k K env [] ses' 0 st3) = OutOfFuel"
      using sup ty by (intro Loop_EOF_out_of_fuel [OF c1 c2 nt]) simp
    with Suc nt ch cc cl ne ty show ?thesis
      by (simp add: Loop.simps)
  qed
  from one two show ?thesis
    unfolding i by blast
qed

theorem Interactive_without_quit_never_returns_nil_witness:
  "distinct_protocols sample_consts
   \<and> Type (sample_session ''rcon'') \<noteq> ProtocolTELNET sample_consts
   \<and> list_all plain [''status'']
   \<and> ProtocolTELNET sample_consts \<notin> set [''status'']
   \<and> CommandQuit \<notin> set [''status'']
   \<and> fst (Interactive 7 sample_consts (sample_env (''OK'', None) None) [''status'']
        (sample_session ''rcon'') sample_io) = OutOfFuel
   \<and> calls (snd (snd (Interactive 3 sample_consts (sample_env (''OK'', None) None) [''status'']
        (sample_session ''rcon'') sample_io))) =
       [RconCheckCredentials ''127.0.0.1:16260'' ''secret'',
        RconExecute ''127.0.0.1:16260'' ''secret'' ''status'',
        LoggerWrite ''rcon.log'' ''127.0.0.1:16260'' ''status'' ''OK'',
        RconCheckCredentials ''127.0.0.1:16260'' ''secret'',
        RconCheckCredentials ''127.0.0.1:16260'' ''secret'']"
proof -
  let ?E = "sample_env (''OK'', None) None"
  have d: "distinct_protocols sample_consts"
    by (simp add: distinct_protocols_def sample_consts_def)
  have t: "Type (sample_session ''rcon'') \<noteq> ProtocolTELNET sample_consts"
    by (simp add: sample_session_def sample_consts_def)
  have p: "list_all plain [''status'']"
    by code_simp
  have r: "ProtocolTELNET sample_consts \<notin> set [''status'']"
    by (simp add: sample_consts_def)
  have q: "CommandQuit \<notin> set [''status'']"
    by (simp add: CommandQuit_def)
  have env: "(\<forall>a p w. fst (rcon_CheckCredentials ?E a p w) = None)
           \<and> (\<forall>a p w. fst (websocket_CheckCredentials ?E a p w) = None)
           \<and> (\<forall>a p c w. snd (fst (rcon_Execute ?E a p c w)) = None)
           \<and> (\<forall>a p c w. snd (fst (telnet_Execute ?E a p c w)) = None)
           \<and> (\<forall>a p c w. snd (fst (websocket_Execute ?E a p c w)) = None)
           \<and> (\<forall>l a c x w. fst (logger_Write ?E l a c x w) = None)
           \<and> Type (sample_session ''rcon'') \<noteq> []
           \<and> supported sample_consts (Type (sample_session ''rcon''))"
    by (simp add: sample_env_def sample_session_def sample_consts_def supported_def)
  have c: "calls (snd (snd (Interactive 3 sample_consts ?E [''status'']
        (sample_session ''rcon'') sample_io))) =
       [RconCheckCredentials ''127.0.0.1:16260'' ''secret'',
        RconExecute ''127.0.0.1:16260'' ''secret'' ''status'',
        LoggerWrite ''rcon.log'' ''127.0.0.1:16260'' ''status'' ''OK'',
        RconCheckCredentials ''127.0.0.1:16260'' ''secret'',
        RconCheckCredentials ''127.0.0.1:16260'' ''secret'']"
    by code_simp
  have "fst (Interactive 7 sample_consts ?E [''status''] (sample_session ''rcon'') sample_io)
      = OutOfFuel"
    using Interactive_without_quit_never_returns_nil [OF d t p r q, of 7 ?E sample_io] env
    by blast
  with d t p r q c show ?thesis by blast
qed

end
